theory Spec2Isabelle
  imports Complex_Main
begin

section \<open>Python strings\<close>

text \<open>
  A Python \<open>str\<close> is modelled as a \<open>string\<close> whose characters are the code points
  U+0000 to U+00FF.  On that range \<open>str.strip\<close>, \<open>str.split\<close> and \<open>str.isspace\<close> treat
  exactly the code points 9-13, 28-32, 133 and 160 as whitespace, and \<open>str.lower\<close> maps
  A-Z and the Latin-1 capitals 192-222 (without 215) to the code point 32 above.
\<close>

definition py_isspace :: "char \<Rightarrow> bool" where
  "py_isspace c = (let n = (of_char c :: nat) in
     (9 \<le> n \<and> n \<le> 13) \<or> (28 \<le> n \<and> n \<le> 32) \<or> n = 133 \<or> n = 160)"

definition py_lower_char :: "char \<Rightarrow> char" where
  "py_lower_char c = (let n = (of_char c :: nat) in
     if (65 \<le> n \<and> n \<le> 90) \<or> (192 \<le> n \<and> n \<le> 222 \<and> n \<noteq> 215)
     then char_of (n + 32) else c)"

definition lower :: "string \<Rightarrow> string" where
  "lower s = map py_lower_char s"

definition lstrip :: "string \<Rightarrow> string" where
  "lstrip s = dropWhile py_isspace s"

definition rstrip :: "string \<Rightarrow> string" where
  "rstrip s = rev (dropWhile py_isspace (rev s))"

definition strip :: "string \<Rightarrow> string" where
  "strip s = rstrip (lstrip s)"

text \<open>\<open>s.split()\<close>: the maximal runs of non-whitespace characters, in order.\<close>

fun split_ws_acc :: "string \<Rightarrow> string \<Rightarrow> string list" where
  "split_ws_acc cur [] = (if cur = [] then [] else [rev cur])"
| "split_ws_acc cur (c # cs) =
     (if py_isspace c then (if cur = [] then split_ws_acc [] cs else rev cur # split_ws_acc [] cs)
      else split_ws_acc (c # cur) cs)"

definition split_ws :: "string \<Rightarrow> string list" where
  "split_ws s = split_ws_acc [] s"

text \<open>A token of \<open>split\<close>: non-empty and free of whitespace.\<close>

definition word :: "string \<Rightarrow> bool" where
  "word w = (w \<noteq> [] \<and> (\<forall>c \<in> set w. \<not> py_isspace c))"

text \<open>\<open>" ".join(parts)\<close>.\<close>

fun join_sp :: "string list \<Rightarrow> string" where
  "join_sp [] = []"
| "join_sp [w] = w"
| "join_sp (w # v # ws) = w @ CHR '' '' # join_sp (v # ws)"

fun startswith :: "string \<Rightarrow> string \<Rightarrow> bool" where
  "startswith s [] = True"
| "startswith [] (p # ps) = False"
| "startswith (c # cs) (p # ps) = (c = p \<and> startswith cs ps)"



section \<open>Claim extraction (build_mammals_csv.py)\<close>

text \<open>
  A statement of the claims payload.  \<open>rank\<close> is \<open>s.get("rank")\<close> (\<open>None\<close> when the key
  is missing); \<open>snak_value\<close> is \<open>st.get("mainsnak", {}).get("datavalue", {}).get("value")\<close>:
  missing, a string, or a dictionary of which the code reads the keys \<open>amount\<close>,
  \<open>unit\<close> and \<open>id\<close>.
\<close>

datatype snak_value =
    NoValue
  | TextValue string
  | DictValue (amount: "string option") (unit: "string option") (ident: "string option")

record statement =
  rank :: "string option"
  snak :: snak_value

definition pick_best_statements :: "statement list \<Rightarrow> statement list" where
  "pick_best_statements statements =
     (let preferred = filter (\<lambda>s. rank s = Some ''preferred'') statements in
      if preferred \<noteq> [] then preferred
      else let normal = filter (\<lambda>s. rank s = Some ''normal'') statements in
        if normal \<noteq> [] then normal
        else filter (\<lambda>s. rank s \<noteq> Some ''deprecated'') statements)"

section \<open>Name normalisation and the legacy index (FillDataFromPantheria.py)\<close>

text \<open>
  The same \<open>normalize_name\<close>, \<open>to_binomial\<close>, \<open>parse_pantheria_number\<close> and
  \<open>load_pantheria_index\<close> stand in AddPopulationGrpSizeFromPantheria.py, character
  for character.
\<close>

text \<open>\<open>value or ""\<close>\<close>

definition or_empty :: "string option \<Rightarrow> string" where
  "or_empty v = (case v of None \<Rightarrow> [] | Some s \<Rightarrow> s)"

definition normalize_name :: "string option \<Rightarrow> string" where
  "normalize_name v = join_sp (split_ws (lower (strip (or_empty v))))"

definition to_binomial :: "string \<Rightarrow> string" where
  "to_binomial normalized_name =
     (case split_ws normalized_name of
        p0 # p1 # _ \<Rightarrow> p0 @ '' '' @ p1
      | _ \<Rightarrow> normalized_name)"

text \<open>
  A row of \<open>csv.DictReader\<close>: a dictionary from column names to cells.  A cell that the
  reader fills with \<open>None\<close> (a short line) is read and written by this code exactly as a
  missing key is, so both are \<open>None\<close> here.
\<close>

type_synonym row = "string \<rightharpoonup> string"

fun index_rows :: "(string \<rightharpoonup> row) \<Rightarrow> row list \<Rightarrow> (string \<rightharpoonup> row)" where
  "index_rows index [] = index"
| "index_rows index (r # rows) =
     (let key = normalize_name (r ''MSW05_Binomial'') in
      if key \<noteq> [] \<and> index key = None then index_rows (index(key \<mapsto> r)) rows
      else index_rows index rows)"

definition load_pantheria_index :: "row list \<Rightarrow> (string \<rightharpoonup> row)" where
  "load_pantheria_index rows = index_rows Map.empty rows"

text \<open>
  The two lookups at the head of the row loop of \<open>fill_and_filter_mammals\<close> (and of
  \<open>fill_population_group_size\<close>).
\<close>

definition match_pantheria :: "(string \<rightharpoonup> row) \<Rightarrow> row \<Rightarrow> row option" where
  "match_pantheria pantheria_index mammal_row =
     (let sci_name = normalize_name (mammal_row ''scientific_name'') in
      case pantheria_index sci_name of
        Some pantheria_row \<Rightarrow> Some pantheria_row
      | None \<Rightarrow> pantheria_index (to_binomial sci_name))"

text \<open>Two legacy rows with the same normalised binomial, and a subject row of a subspecies.\<close>

definition legacy_row_a :: row where
  "legacy_row_a = [''MSW05_Binomial'' \<mapsto> ''Panthera  leo'', ''5-1_AdultBodyMass_g'' \<mapsto> ''158623.93'']"

definition legacy_row_b :: row where
  "legacy_row_b = [''MSW05_Binomial'' \<mapsto> ''panthera leo'', ''5-1_AdultBodyMass_g'' \<mapsto> ''-999'']"

definition subject_row :: row where
  "subject_row = [''scientific_name'' \<mapsto> '' Panthera leo  persica'']"

section \<open>Numbers\<close>

text \<open>
  Python's \<open>Decimal\<close> and \<open>float\<close> values are modelled by scaled integers: a finite
  \<open>Decimal\<close> is a coefficient and a power of ten, a finite \<open>float\<close> a mantissa and a
  power of two.  Comparison is by value, as in Python.  The special values (NaN, the
  infinities, the negative zero) and the overflow beyond the largest exponent are not
  modelled.
\<close>

function digit_count :: "nat \<Rightarrow> nat \<Rightarrow> nat" where
  "digit_count b n = (if n < b \<or> b < 2 then 1 else Suc (digit_count b (n div b)))"
  by pat_completeness auto
termination
proof (relation "measure snd")
  show "wf (measure snd)" by simp
next
  fix b n :: nat
  assume "\<not> (n < b \<or> b < 2)"
  then have "n div b < n" by (intro div_less_dividend) auto
  then show "((b, n div b), (b, n)) \<in> measure snd" by simp
qed

declare digit_count.simps [simp del]

text \<open>\<open>n / d\<close> rounded to the nearest integer, ties to the even one (\<open>d > 0\<close>).\<close>

definition rhe_div :: "int \<Rightarrow> int \<Rightarrow> int" where
  "rhe_div n d = (let q = n div d; r = n mod d in
     if 2 * r < d then q else if d < 2 * r then q + 1 else if even q then q else q + 1)"

text \<open>\<open>(n / d) / b ^ E\<close> rounded to the nearest integer, ties to even.\<close>

definition scale_div :: "nat \<Rightarrow> int \<Rightarrow> int \<Rightarrow> int \<Rightarrow> int" where
  "scale_div b n d E =
     (if 0 \<le> E then rhe_div n (d * int b ^ nat E) else rhe_div (n * int b ^ nat (- E)) d)"

text \<open>The integer part of the base-\<open>b\<close> logarithm of \<open>a / d\<close>, for \<open>a, d > 0\<close>.\<close>

definition floor_log :: "nat \<Rightarrow> int \<Rightarrow> int \<Rightarrow> int" where
  "floor_log b a d =
     (let e0 = int (digit_count b (nat a)) - int (digit_count b (nat d)) in
      if (if 0 \<le> e0 then d * int b ^ nat e0 \<le> a else d \<le> a * int b ^ nat (- e0))
      then e0 else e0 - 1)"

text \<open>
  The exact quotient \<open>n / d\<close> rounded to \<open>prec\<close> significant digits of base \<open>b\<close>, ties to
  even, with no exponent below \<open>emin\<close>: the pair of the rounded coefficient and its
  exponent.
\<close>

definition round_to :: "nat \<Rightarrow> nat \<Rightarrow> int \<Rightarrow> int \<Rightarrow> int \<Rightarrow> int \<times> int" where
  "round_to b prec emin n d =
     (if n = 0 then (0, 0)
      else let E = max (floor_log b \<bar>n\<bar> d - (int prec - 1)) emin in (scale_div b n d E, E))"

subsection \<open>Decimal\<close>

text \<open>\<open>Dec m e\<close> is the decimal \<open>m * 10 ^ e\<close>.\<close>

datatype decimal = Dec int int

fun dec_val :: "decimal \<Rightarrow> rat" where
  "dec_val (Dec m e) = of_int m * 10 powi e"

text \<open>
  The default context of the \<open>decimal\<close> module: 28 significant digits, ties to even,
  smallest exponent \<open>Etiny = -1000026\<close>.  Multiplication and division return the exact
  result rounded in the context.  The divisors of this program are non-zero constants.
\<close>

definition dec_context :: "int \<Rightarrow> int \<Rightarrow> decimal" where
  "dec_context n d = (case round_to 10 28 (- 1000026) n d of (m, e) \<Rightarrow> Dec m e)"

fun dec_mul :: "decimal \<Rightarrow> decimal \<Rightarrow> decimal" where
  "dec_mul (Dec m1 e1) (Dec m2 e2) =
     (let m = m1 * m2; e = e1 + e2 in
      if 0 \<le> e then dec_context (m * 10 ^ nat e) 1 else dec_context m (10 ^ nat (- e)))"

fun dec_div :: "decimal \<Rightarrow> decimal \<Rightarrow> decimal" where
  "dec_div (Dec m1 e1) (Dec m2 e2) =
     (let n = m1 * sgn m2; d = \<bar>m2\<bar>; e = e1 - e2 in
      if 0 \<le> e then dec_context (n * 10 ^ nat e) d else dec_context n (d * 10 ^ nat (- e)))"

text \<open>\<open>Etiny\<close> of the default context: the exponent below which no result goes.\<close>

definition Etiny :: int where
  "Etiny = - 1000026"

text \<open>
  What rounding in the default context means for a result \<open>r\<close> computed for the exact
  value \<open>x\<close>: \<open>r\<close> is within \<open>5 / 10 ^ 28\<close> of \<open>x\<close>, relatively (half a unit of the 28th
  significant digit), or within half of \<open>10 ^ Etiny\<close> when \<open>x\<close> is that small; and \<open>r\<close> is \<open>x\<close>
  itself when 28 digits with an exponent from \<open>Etiny\<close> on can hold \<open>x\<close>.
\<close>

definition context_rounded :: "rat \<Rightarrow> decimal \<Rightarrow> bool" where
  "context_rounded x r \<longleftrightarrow>
     \<bar>dec_val r - x\<bar> \<le> \<bar>x\<bar> * 5 / 10 ^ 28 + 10 powi Etiny / 2
     \<and> (\<forall>k j. x = of_int k * 10 powi j \<and> \<bar>k\<bar> < 10 ^ 28 \<and> Etiny \<le> j \<longrightarrow> dec_val r = x)"

text \<open>\<open>a < b\<close> on decimals.\<close>

fun dec_lt :: "decimal \<Rightarrow> decimal \<Rightarrow> bool" where
  "dec_lt (Dec m1 e1) (Dec m2 e2) =
     (let k = min e1 e2 in m1 * 10 ^ nat (e1 - k) < m2 * 10 ^ nat (e2 - k))"

subsection \<open>float\<close>

text \<open>\<open>Flt m e\<close> is the double \<open>m * 2 ^ e\<close>.\<close>

datatype pyfloat = Flt int int

fun fval :: "pyfloat \<Rightarrow> rat" where
  "fval (Flt m e) = of_int m * 2 powi e"

text \<open>The double nearest to \<open>n / d\<close> (53 bits, ties to even, subnormals from \<open>2 ^ -1074\<close>).\<close>

definition fl :: "int \<Rightarrow> int \<Rightarrow> pyfloat" where
  "fl n d = (case round_to 2 53 (- 1074) n d of (m, e) \<Rightarrow> Flt m e)"

text \<open>\<open>float(d)\<close> for a \<open>Decimal\<close>.\<close>

fun float_of_decimal :: "decimal \<Rightarrow> pyfloat" where
  "float_of_decimal (Dec m e) = (if 0 \<le> e then fl (m * 10 ^ nat e) 1 else fl m (10 ^ nat (- e)))"

text \<open>\<open>a / b\<close>, \<open>a - b\<close>, \<open>a <= b\<close>, \<open>a < b\<close>, \<open>abs(a)\<close> and \<open>round(a)\<close> on floats.\<close>

fun fdiv :: "pyfloat \<Rightarrow> pyfloat \<Rightarrow> pyfloat" where
  "fdiv (Flt m1 e1) (Flt m2 e2) =
     (let n = m1 * sgn m2; d = \<bar>m2\<bar>; e = e1 - e2 in
      if 0 \<le> e then fl (n * 2 ^ nat e) d else fl n (d * 2 ^ nat (- e)))"

fun fsub :: "pyfloat \<Rightarrow> pyfloat \<Rightarrow> pyfloat" where
  "fsub (Flt m1 e1) (Flt m2 e2) =
     (let k = min e1 e2; m = m1 * 2 ^ nat (e1 - k) - m2 * 2 ^ nat (e2 - k) in
      if 0 \<le> k then fl (m * 2 ^ nat k) 1 else fl m (2 ^ nat (- k)))"

fun fle :: "pyfloat \<Rightarrow> pyfloat \<Rightarrow> bool" where
  "fle (Flt m1 e1) (Flt m2 e2) =
     (let k = min e1 e2 in m1 * 2 ^ nat (e1 - k) \<le> m2 * 2 ^ nat (e2 - k))"

fun flt :: "pyfloat \<Rightarrow> pyfloat \<Rightarrow> bool" where
  "flt (Flt m1 e1) (Flt m2 e2) =
     (let k = min e1 e2 in m1 * 2 ^ nat (e1 - k) < m2 * 2 ^ nat (e2 - k))"

fun fabs :: "pyfloat \<Rightarrow> pyfloat" where
  "fabs (Flt m e) = Flt \<bar>m\<bar> e"

fun py_round :: "pyfloat \<Rightarrow> int" where
  "py_round (Flt m e) = (if 0 \<le> e then m * 2 ^ nat e else rhe_div m (2 ^ nat (- e)))"

text \<open>\<open>float(i)\<close> for an integer.\<close>

definition float_of_int :: "int \<Rightarrow> pyfloat" where
  "float_of_int i = fl i 1"

section \<open>Units and aggregation (build_mammals_csv.py)\<close>

definition P_MASS :: string where "P_MASS = ''P2067''"
definition P_LIFESPAN :: string where "P_LIFESPAN = ''P2250''"
definition P_GESTATION :: string where "P_GESTATION = ''P3063''"
definition P_LITTER :: string where "P_LITTER = ''P7725''"
definition P_SPEED :: string where "P_SPEED = ''P2052''"

definition Q_KG :: string where "Q_KG = ''Q11570''"
definition Q_G :: string where "Q_G = ''Q41803''"
definition Q_MG :: string where "Q_MG = ''Q3241121''"
definition Q_TONNE :: string where "Q_TONNE = ''Q191118''"
definition Q_LB :: string where "Q_LB = ''Q100995''"

definition Q_DAY :: string where "Q_DAY = ''Q573''"
definition Q_WEEK :: string where "Q_WEEK = ''Q23387''"
definition Q_MONTH :: string where "Q_MONTH = ''Q5151''"
definition Q_YEAR :: string where "Q_YEAR = ''Q577''"

definition Q_MPH :: string where "Q_MPH = ''Q211256''"
definition Q_KMH :: string where "Q_KMH = ''Q180154''"
definition Q_MPS :: string where "Q_MPS = ''Q182429''"
definition Q_KNOT :: string where "Q_KNOT = ''Q128822''"

text \<open>\<open>Decimal("0.45359237")\<close> and the other constants.\<close>

definition LB_TO_KG :: decimal where "LB_TO_KG = Dec 45359237 (- 8)"
definition KMH_TO_MPH :: decimal where "KMH_TO_MPH = Dec 621371192237334 (- 15)"
definition MPS_TO_MPH :: decimal where "MPS_TO_MPH = Dec 22369362920544 (- 13)"
definition KNOT_TO_MPH :: decimal where "KNOT_TO_MPH = Dec 115077944802354 (- 14)"

text \<open>
  \<open>as_decimal\<close>.  The constructor \<open>Decimal(s)\<close> of the standard library is the parameter
  \<open>Decimal\<close>: \<open>None\<close> when it raises, the finite decimal that the string denotes
  otherwise.
\<close>

definition as_decimal :: "(string \<Rightarrow> decimal option) \<Rightarrow> string \<Rightarrow> decimal option" where
  "as_decimal Decimal amount_str =
     (let s = strip amount_str;
          s = (if startswith s ''+'' then drop 1 s else s)
      in Decimal s)"

text \<open>\<open>uri.rsplit("/", 1)[-1]\<close>: what follows the last slash, the whole string without one.\<close>

definition after_last_slash :: "string \<Rightarrow> string" where
  "after_last_slash uri = rev (takeWhile (\<lambda>c. c \<noteq> CHR ''/'') (rev uri))"

definition unit_qid_from_uri :: "string \<Rightarrow> string option" where
  "unit_qid_from_uri unit_uri =
     (if unit_uri = [] \<or> unit_uri = ''1'' then None else Some (after_last_slash unit_uri))"

text \<open>The \<open>claims\<close> of an entity: the statements of each property.\<close>

type_synonym entity = "string \<rightharpoonup> statement list"

definition claims_get :: "entity \<Rightarrow> string \<Rightarrow> statement list" where
  "claims_get entity prop = (case entity prop of None \<Rightarrow> [] | Some sts \<Rightarrow> sts)"

text \<open>
  One round of the loop of \<open>extract_quantity_claims\<close>: the values appended to \<open>out\<close> for
  a statement (none after a \<open>continue\<close>).
\<close>

definition quantity_of ::
  "(string \<Rightarrow> decimal option) \<Rightarrow> statement \<Rightarrow> (decimal \<times> string option) list" where
  "quantity_of Decimal st =
     (case snak st of
        DictValue (Some a) u i \<Rightarrow>
          (case as_decimal Decimal a of
             None \<Rightarrow> []
           | Some val \<Rightarrow> [(val, unit_qid_from_uri (or_empty u))])
      | _ \<Rightarrow> [])"

definition extract_quantity_claims ::
  "(string \<Rightarrow> decimal option) \<Rightarrow> entity \<Rightarrow> string \<Rightarrow> (decimal \<times> string option) list" where
  "extract_quantity_claims Decimal entity prop =
     concat (map (quantity_of Decimal) (pick_best_statements (claims_get entity prop)))"

definition convert_mass_to_kg :: "decimal \<Rightarrow> string option \<Rightarrow> decimal option" where
  "convert_mass_to_kg v unit_qid =
     (if unit_qid = Some Q_KG then Some v
      else if unit_qid = Some Q_G then Some (dec_div v (Dec 1000 0))
      else if unit_qid = Some Q_MG then Some (dec_div v (Dec 1000000 0))
      else if unit_qid = Some Q_TONNE then Some (dec_mul v (Dec 1000 0))
      else if unit_qid = Some Q_LB then Some (dec_mul v LB_TO_KG)
      else None)"

definition convert_time_to_days :: "decimal \<Rightarrow> string option \<Rightarrow> decimal option" where
  "convert_time_to_days v unit_qid =
     (if unit_qid = Some Q_DAY then Some v
      else if unit_qid = Some Q_WEEK then Some (dec_mul v (Dec 7 0))
      else if unit_qid = Some Q_MONTH then Some (dec_mul v (Dec 304375 (- 4)))
      else if unit_qid = Some Q_YEAR then Some (dec_mul v (Dec 36525 (- 2)))
      else None)"

definition convert_time_to_years :: "decimal \<Rightarrow> string option \<Rightarrow> decimal option" where
  "convert_time_to_years v unit_qid =
     (if unit_qid = Some Q_YEAR then Some v
      else case convert_time_to_days v unit_qid of
             None \<Rightarrow> None
           | Some days \<Rightarrow> Some (dec_div days (Dec 36525 (- 2))))"

definition convert_speed_to_mph :: "decimal \<Rightarrow> string option \<Rightarrow> decimal option" where
  "convert_speed_to_mph v unit_qid =
     (if unit_qid = Some Q_MPH then Some v
      else if unit_qid = Some Q_KMH then Some (dec_mul v KMH_TO_MPH)
      else if unit_qid = Some Q_MPS then Some (dec_mul v MPS_TO_MPH)
      else if unit_qid = Some Q_KNOT then Some (dec_mul v KNOT_TO_MPH)
      else None)"

text \<open>
  \<open>max(conv)\<close> keeps the first of the greatest values: it starts from the first element
  and replaces it by a later one only when that one is greater.
\<close>

fun max_from :: "decimal \<Rightarrow> decimal list \<Rightarrow> decimal" where
  "max_from best [] = best"
| "max_from best (x # xs) = max_from (if dec_lt best x then x else best) xs"

text \<open>
  The loop that fills \<open>conv\<close> in \<open>best_mass_kg\<close>, \<open>best_lifespan_yr\<close>,
  \<open>best_gestation_days\<close> and \<open>best_speed_mph\<close>, for the converter \<open>f\<close>.
\<close>

definition converted ::
  "(decimal \<Rightarrow> string option \<Rightarrow> decimal option) \<Rightarrow> (decimal \<times> string option) list
     \<Rightarrow> decimal list" where
  "converted f qs = List.map_filter (\<lambda>(v, u). f v u) qs"

text \<open>\<open>float(max(conv)) if conv else None\<close>\<close>

definition float_max :: "decimal list \<Rightarrow> pyfloat option" where
  "float_max conv = (case conv of [] \<Rightarrow> None | c # cs \<Rightarrow> Some (float_of_decimal (max_from c cs)))"

definition best_mass_kg :: "(string \<Rightarrow> decimal option) \<Rightarrow> entity \<Rightarrow> pyfloat option" where
  "best_mass_kg Decimal entity =
     float_max (converted convert_mass_to_kg (extract_quantity_claims Decimal entity P_MASS))"

definition best_lifespan_yr :: "(string \<Rightarrow> decimal option) \<Rightarrow> entity \<Rightarrow> pyfloat option" where
  "best_lifespan_yr Decimal entity =
     float_max (converted convert_time_to_years (extract_quantity_claims Decimal entity P_LIFESPAN))"

definition best_gestation_days :: "(string \<Rightarrow> decimal option) \<Rightarrow> entity \<Rightarrow> pyfloat option" where
  "best_gestation_days Decimal entity =
     float_max (converted convert_time_to_days (extract_quantity_claims Decimal entity P_GESTATION))"

definition best_speed_mph :: "(string \<Rightarrow> decimal option) \<Rightarrow> entity \<Rightarrow> pyfloat option" where
  "best_speed_mph Decimal entity =
     float_max (converted convert_speed_to_mph (extract_quantity_claims Decimal entity P_SPEED))"

text \<open>
  Litter size has no converter: the loop of \<open>best_litter_size\<close> takes the value of a
  quantity under the test \<open>u is None\<close>.  As a converter, that test reads:
\<close>

definition unitless :: "decimal \<Rightarrow> string option \<Rightarrow> decimal option" where
  "unitless v u = (if u = None then Some v else None)"

text \<open>The loop of \<open>best_litter_size\<close>, from the current \<open>best\<close>.\<close>

fun litter_loop :: "decimal option \<Rightarrow> (decimal \<times> string option) list \<Rightarrow> decimal option" where
  "litter_loop best [] = best"
| "litter_loop best ((v, u) # qs) =
     (if u = None
      then litter_loop (Some (case best of None \<Rightarrow> v
                               | Some b \<Rightarrow> if dec_lt b v then v else b)) qs
      else litter_loop best qs)"

definition best_litter_size :: "(string \<Rightarrow> decimal option) \<Rightarrow> entity \<Rightarrow> pyfloat option" where
  "best_litter_size Decimal entity =
     (case litter_loop None (extract_quantity_claims Decimal entity P_LITTER) of
        None \<Rightarrow> None
      | Some best \<Rightarrow> Some (float_of_decimal best))"

text \<open>
  \<open>Decimal(s)\<close> on the plain numerals: an optional sign, digits, and an optional point
  followed by digits.  Every other string is refused here.
\<close>

definition digit_val :: "char \<Rightarrow> nat" where
  "digit_val c = of_char c - 48"

definition is_digit :: "char \<Rightarrow> bool" where
  "is_digit c = (48 \<le> (of_char c :: nat) \<and> (of_char c :: nat) \<le> 57)"

definition digits_val :: "string \<Rightarrow> nat" where
  "digits_val ds = foldl (\<lambda>acc c. 10 * acc + digit_val c) 0 ds"

definition unsigned_numeral :: "string \<Rightarrow> decimal option" where
  "unsigned_numeral s =
     (let ip = takeWhile (\<lambda>c. c \<noteq> CHR ''.'') s;
          fp = drop 1 (dropWhile (\<lambda>c. c \<noteq> CHR ''.'') s)
      in if ip \<noteq> [] \<and> list_all is_digit ip \<and> list_all is_digit fp
            \<and> (fp \<noteq> [] \<or> s = ip)
         then Some (Dec (int (digits_val (ip @ fp))) (- int (length fp)))
         else None)"

definition plain_numeral :: "string \<Rightarrow> decimal option" where
  "plain_numeral s =
     (case s of
        [] \<Rightarrow> None
      | c # cs \<Rightarrow>
          if c = CHR ''-'' then
            (case unsigned_numeral cs of None \<Rightarrow> None | Some (Dec m e) \<Rightarrow> Some (Dec (- m) e))
          else if c = CHR ''+'' then unsigned_numeral cs
          else unsigned_numeral s)"

text \<open>An entity with two mass statements: 5 kg and 11000 g.\<close>

definition mass_entity :: entity where
  "mass_entity = [P_MASS \<mapsto>
     [\<lparr>rank = Some ''normal'',
       snak = DictValue (Some ''+5'') (Some ''http://www.wikidata.org/entity/Q11570'') None\<rparr>,
      \<lparr>rank = Some ''normal'',
       snak = DictValue (Some ''+11000'') (Some ''http://www.wikidata.org/entity/Q41803'') None\<rparr>]]"

text \<open>An entity with two litter statements: 4 with the unit "1" and 12 with a unit.\<close>

definition litter_entity :: entity where
  "litter_entity = [P_LITTER \<mapsto>
     [\<lparr>rank = Some ''normal'', snak = DictValue (Some ''+4'') (Some ''1'') None\<rparr>,
      \<lparr>rank = Some ''normal'',
       snak = DictValue (Some ''+12'') (Some ''http://www.wikidata.org/entity/Q11570'') None\<rparr>]]"

section \<open>Audio candidates (AddSoundFromWikipedia.py)\<close>







text \<open>The characters of the class \<open>[a-z0-9]\<close>.\<close>

definition is_alnum :: "char \<Rightarrow> bool" where
  "is_alnum c = (let n = (of_char c :: nat) in (97 \<le> n \<and> n \<le> 122) \<or> (48 \<le> n \<and> n \<le> 57))"

text \<open>The maximal runs of \<open>[a-z0-9]\<close> characters of a string, in order.\<close>

fun alnum_runs :: "string \<Rightarrow> string \<Rightarrow> string list" where
  "alnum_runs cur [] = (if cur = [] then [] else [rev cur])"
| "alnum_runs cur (c # cs) =
     (if is_alnum c then alnum_runs (c # cur) cs
      else if cur = [] then alnum_runs [] cs else rev cur # alnum_runs [] cs)"





section \<open>Image fallback (build_mammals_csv.py)\<close>

definition MAP_LIKE_IMAGE_KEYWORDS :: "string list" where
  "MAP_LIKE_IMAGE_KEYWORDS =
     [''area'', ''distribution'', ''locator'', ''location'', ''map'', ''range'', ''territory'']"

text \<open>The truth value of an optional string: neither \<open>None\<close> nor empty.\<close>

definition truthy :: "string option \<Rightarrow> bool" where
  "truthy v = (case v of None \<Rightarrow> False | Some s \<Rightarrow> s \<noteq> [])"

text \<open>
  \<open>is_map_like_image_name_or_url\<close>.  The non-empty pieces of
  \<open>re.split(r"[^a-z0-9]+", text)\<close> are the maximal runs of \<open>[a-z0-9]\<close> characters.
\<close>

definition is_map_like_image_name_or_url :: "(string \<Rightarrow> string) \<Rightarrow> string option \<Rightarrow> bool" where
  "is_map_like_image_name_or_url unquote v =
     (if \<not> truthy v then False
      else let text = lower (unquote (or_empty v));
               tokens = alnum_runs [] text
           in list_ex (\<lambda>token. token \<in> set MAP_LIKE_IMAGE_KEYWORDS) tokens)"

text \<open>
  The retrieval functions call the network: they are parameters.  Each returns its
  value or raises, \<open>Inl\<close> standing for the exception.
  \<open>commons_metadata_for_filename\<close> returns the file page, the direct URL, the licence and
  the attribution.
\<close>

datatype exn = RetrievalFailure

record net =
  lead_image_from_enwiki :: "string \<Rightarrow> exn + (string option \<times> string option)"
  commons_metadata_for_filename ::
    "string \<Rightarrow> exn + (string option \<times> string option \<times> string option \<times> string option)"
  page_image_filenames_from_enwiki :: "string \<Rightarrow> exn + string list"

record image =
  image_url :: "string option"
  image_file_page :: "string option"
  image_license :: "string option"
  image_attribution :: "string option"

definition no_image :: image where
  "no_image = \<lparr>image_url = None, image_file_page = None, image_license = None,
     image_attribution = None\<rparr>"

record counters =
  skipped_no_image :: nat
  skipped_map_only :: nat

text \<open>
  The loop over \<open>page_images\<close>: \<open>Inr (Some img)\<close> at the \<open>break\<close>, \<open>Inr None\<close> when the
  loop ends with \<open>fallback_found\<close> false, \<open>Inl\<close> when a lookup raises.
\<close>

fun scan_alternates ::
  "(string \<Rightarrow> string) \<Rightarrow> net \<Rightarrow> string \<Rightarrow> string list \<Rightarrow> exn + image option" where
  "scan_alternates unquote n filename [] = Inr None"
| "scan_alternates unquote n filename (alt_filename # rest) =
     (if alt_filename = filename then scan_alternates unquote n filename rest
      else if is_map_like_image_name_or_url unquote (Some alt_filename)
        then scan_alternates unquote n filename rest
      else case commons_metadata_for_filename n alt_filename of
             Inl e \<Rightarrow> Inl e
           | Inr (alt_file_page, alt_direct_url, alt_lic, alt_attrib) \<Rightarrow>
               if truthy alt_direct_url \<and> truthy alt_file_page
                  \<and> \<not> is_map_like_image_name_or_url unquote alt_direct_url
               then Inr (Some \<lparr>image_url = alt_direct_url, image_file_page = alt_file_page,
                               image_license = alt_lic, image_attribution = alt_attrib\<rparr>)
               else scan_alternates unquote n filename rest)"

text \<open>
  The \<open>try\<close> block of \<open>build_csv\<close> for one candidate.  \<open>except Exception: pass\<close> leaves
  the four image variables as they stand when the exception is raised.
\<close>

definition image_try_block ::
  "(string \<Rightarrow> string) \<Rightarrow> net \<Rightarrow> string \<Rightarrow> counters \<Rightarrow> image \<times> counters" where
  "image_try_block unquote n enwiki_title st =
     (case lead_image_from_enwiki n enwiki_title of
        Inl e \<Rightarrow> (no_image, st)
      | Inr (lead_url, filename) \<Rightarrow>
          if \<not> truthy filename then (no_image, st)
          else case commons_metadata_for_filename n (or_empty filename) of
            Inl e \<Rightarrow> (no_image, st)
          | Inr (file_page, direct_url, lic, attrib) \<Rightarrow>
              if truthy direct_url \<and> truthy file_page then
                let primary = \<lparr>image_url = direct_url, image_file_page = file_page,
                                image_license = lic, image_attribution = attrib\<rparr>
                in if is_map_like_image_name_or_url unquote filename
                      \<or> is_map_like_image_name_or_url unquote direct_url
                   then case page_image_filenames_from_enwiki n enwiki_title of
                          Inl e \<Rightarrow> (primary, st)
                        | Inr page_images \<Rightarrow>
                            (case scan_alternates unquote n (or_empty filename) page_images of
                               Inl e \<Rightarrow> (primary, st)
                             | Inr (Some alt) \<Rightarrow> (alt, st)
                             | Inr None \<Rightarrow>
                                 (no_image, st\<lparr>skipped_map_only := skipped_map_only st + 1\<rparr>))
                   else (primary, st)
              else (no_image, st))"

text \<open>
  The block and the test that follows it: \<open>None\<close> at the \<open>continue\<close> of a candidate
  without an image, with \<open>skipped_no_image\<close> counted.
\<close>

definition select_image ::
  "(string \<Rightarrow> string) \<Rightarrow> net \<Rightarrow> string \<Rightarrow> counters \<Rightarrow> image option \<times> counters" where
  "select_image unquote n enwiki_title st =
     (case image_try_block unquote n enwiki_title st of
        (img, st') \<Rightarrow>
          if \<not> truthy (image_url img)
          then (None, st'\<lparr>skipped_no_image := skipped_no_image st' + 1\<rparr>)
          else (Some img, st'))"

text \<open>
  What the scan meets: the page images other than the primary file name and the
  map-like names; whether the lookup of one raises; whether it is accepted; the image it
  gives.
\<close>

definition scan_candidates :: "(string \<Rightarrow> string) \<Rightarrow> string \<Rightarrow> string list \<Rightarrow> string list" where
  "scan_candidates unquote filename page_images =
     filter (\<lambda>a. a \<noteq> filename \<and> \<not> is_map_like_image_name_or_url unquote (Some a)) page_images"

definition lookup_raises :: "net \<Rightarrow> string \<Rightarrow> bool" where
  "lookup_raises n a = (case commons_metadata_for_filename n a of Inl e \<Rightarrow> True | Inr r \<Rightarrow> False)"

definition acceptable :: "(string \<Rightarrow> string) \<Rightarrow> net \<Rightarrow> string \<Rightarrow> bool" where
  "acceptable unquote n a =
     (case commons_metadata_for_filename n a of
        Inl e \<Rightarrow> False
      | Inr (fp, url, lic, att) \<Rightarrow>
          truthy url \<and> truthy fp \<and> \<not> is_map_like_image_name_or_url unquote url)"

definition image_of :: "net \<Rightarrow> string \<Rightarrow> image" where
  "image_of n a =
     (case commons_metadata_for_filename n a of
        Inl e \<Rightarrow> no_image
      | Inr (fp, url, lic, att) \<Rightarrow>
          \<lparr>image_url = url, image_file_page = fp, image_license = lic, image_attribution = att\<rparr>)"

text \<open>
  A page whose lead image is a range map on Commons and whose list of images cannot be
  retrieved; and the same page with the list retrieved: the map and a photograph.
\<close>

definition map_meta :: "string option \<times> string option \<times> string option \<times> string option" where
  "map_meta = (Some ''https://commons.wikimedia.org/wiki/File:Lion_distribution_map.png'',
     Some ''https://upload.wikimedia.org/wikipedia/commons/a/a1/Lion_distribution_map.png'',
     Some ''CC BY-SA 4.0'', Some ''A / CC BY-SA 4.0'')"

definition photo_meta :: "string option \<times> string option \<times> string option \<times> string option" where
  "photo_meta = (Some ''https://commons.wikimedia.org/wiki/File:Lion_waiting.jpg'',
     Some ''https://upload.wikimedia.org/wikipedia/commons/7/73/Lion_waiting.jpg'',
     Some ''CC BY 2.0'', Some ''B / CC BY 2.0'')"

definition failing_net :: net where
  "failing_net =
     \<lparr>lead_image_from_enwiki = (\<lambda>t. Inr (None, Some ''Lion_distribution_map.png'')),
      commons_metadata_for_filename =
        (\<lambda>f. if f = ''Lion_distribution_map.png'' then Inr map_meta
              else if f = ''Lion_waiting.jpg'' then Inr photo_meta
              else Inr (None, None, None, None)),
      page_image_filenames_from_enwiki = (\<lambda>t. Inl RetrievalFailure)\<rparr>"

definition working_net :: net where
  "working_net = failing_net\<lparr>page_image_filenames_from_enwiki :=
     (\<lambda>t. Inr [''Lion_distribution_map.png'', ''Lion_waiting.jpg''])\<rparr>"

section \<open>Filling from the legacy data set (FillDataFromPantheria.py)\<close>

text \<open>\<open>MISSING_SENTINEL = -999.0\<close>\<close>

definition MISSING_SENTINEL :: pyfloat where
  "MISSING_SENTINEL = Flt (- 999) 0"

text \<open>
  \<open>parse_pantheria_number\<close>.  \<open>float(raw)\<close> of the standard library is the parameter
  \<open>float\<close>: \<open>None\<close> when it raises \<open>ValueError\<close>, the double otherwise.
\<close>

definition parse_pantheria_number ::
  "(string \<Rightarrow> pyfloat option) \<Rightarrow> string option \<Rightarrow> pyfloat option" where
  "parse_pantheria_number float raw =
     (case raw of
        None \<Rightarrow> None
      | Some raw \<Rightarrow>
          let raw = strip raw in
          if raw = [] then None
          else case float raw of
                 None \<Rightarrow> None
               | Some v \<Rightarrow> if fle v MISSING_SENTINEL then None else Some v)"

text \<open>The decimal digits of a natural number, and \<open>str(i)\<close> for an integer.\<close>

definition digit_char :: "nat \<Rightarrow> char" where
  "digit_char d = ''0123456789'' ! d"

function nat_digits :: "nat \<Rightarrow> string" where
  "nat_digits n = (if n < 10 then [digit_char n]
                   else nat_digits (n div 10) @ [digit_char (n mod 10)])"
  by pat_completeness auto
termination
  by (relation "measure id") auto

declare nat_digits.simps [simp del]

definition int_str :: "int \<Rightarrow> string" where
  "int_str i = (if i < 0 then CHR ''-'' # nat_digits (nat (- i)) else nat_digits (nat i))"

text \<open>
  \<open>f"{value:.{decimals}f}"\<close>: the exact value of the double rounded to \<open>decimals\<close> places,
  ties to even; the sign is that of the value.
\<close>

fun scaled_round :: "pyfloat \<Rightarrow> nat \<Rightarrow> nat" where
  "scaled_round (Flt m e) decimals =
     nat (if 0 \<le> e then \<bar>m\<bar> * 2 ^ nat e * 10 ^ decimals
          else rhe_div (\<bar>m\<bar> * 10 ^ decimals) (2 ^ nat (- e)))"

fun is_negative :: "pyfloat \<Rightarrow> bool" where
  "is_negative (Flt m e) = (m < 0)"

definition format_fixed :: "pyfloat \<Rightarrow> nat \<Rightarrow> string" where
  "format_fixed v decimals =
     (let n = scaled_round v decimals;
          ip = nat_digits (n div 10 ^ decimals);
          fp = nat_digits (n mod 10 ^ decimals);
          fp = replicate (decimals - length fp) CHR ''0'' @ fp
      in (if is_negative v then ''-'' else '''')
         @ ip @ (if decimals = 0 then '''' else CHR ''.'' # fp))"

text \<open>\<open>text.rstrip(c)\<close> for one character \<open>c\<close>.\<close>

definition rstrip_char :: "char \<Rightarrow> string \<Rightarrow> string" where
  "rstrip_char c s = rev (dropWhile (\<lambda>x. x = c) (rev s))"

definition format_number :: "pyfloat \<Rightarrow> nat \<Rightarrow> string" where
  "format_number v decimals =
     (let text = format_fixed v decimals in
      if CHR ''.'' \<in> set text then rstrip_char CHR ''.'' (rstrip_char CHR ''0'' text)
      else text)"

text \<open>The doubles of the literals \<open>1000.0\<close>, \<open>12.0\<close>, \<open>1\<close> and \<open>1e-9\<close>.\<close>

definition f_1000 :: pyfloat where "f_1000 = Flt 1000 0"
definition f_12 :: pyfloat where "f_12 = Flt 12 0"
definition f_1 :: pyfloat where "f_1 = Flt 1 0"
definition f_1e_9 :: pyfloat where "f_1e_9 = Flt 4835703278458517 (- 82)"

definition convert_trait :: "string \<Rightarrow> pyfloat option \<Rightarrow> string option" where
  "convert_trait source_column v =
     (case v of
        None \<Rightarrow> None
      | Some v \<Rightarrow>
          if source_column = ''5-1_AdultBodyMass_g'' then
            (let mass_kg = fdiv v f_1000 in
             if flt mass_kg f_1 then Some (format_number mass_kg 3)
             else Some (format_number mass_kg 1))
          else if source_column = ''9-1_GestationLen_d'' then Some (format_number v 1)
          else if source_column = ''15-1_LitterSize'' then
            (if flt (fabs (fsub v (float_of_int (py_round v)))) f_1e_9
             then Some (int_str (py_round v))
             else Some (format_number v 2))
          else if source_column = ''17-1_MaxLongevity_m'' then
            Some (format_number (fdiv v f_12) 1)
          else None)"

text \<open>\<open>PANTHERIA_TO_TARGET\<close>, in the order of the dictionary.\<close>

definition PANTHERIA_TO_TARGET :: "(string \<times> string) list" where
  "PANTHERIA_TO_TARGET =
     [(''5-1_AdultBodyMass_g'', ''mass_kg''),
      (''9-1_GestationLen_d'', ''gestation_days''),
      (''15-1_LitterSize'', ''litter_size''),
      (''17-1_MaxLongevity_m'', ''lifespan_yr'')]"







text \<open>The four source columns, and the number of them that fill their target.\<close>

definition source_columns :: "string list" where
  "source_columns = map fst PANTHERIA_TO_TARGET"

definition filled_count :: "(string \<Rightarrow> pyfloat option) \<Rightarrow> row \<Rightarrow> nat" where
  "filled_count float pantheria_row =
     length (filter (\<lambda>c. convert_trait c (parse_pantheria_number float (pantheria_row c)) \<noteq> None)
       source_columns)"








section \<open>The sound column (AddSoundFromWikipedia.py)\<close>


















section \<open>Auxiliary facts\<close>

subsection \<open>Splitting and joining on whitespace\<close>

lemma of_char_lt: "(of_char c :: nat) < 256"
  by (rule of_char_mod_256 [THEN subst]) simp

lemma py_lower_char_idem: "py_lower_char (py_lower_char c) = py_lower_char c"
proof -
  have "(of_char c :: nat) < 256" by (rule of_char_lt)
  then show ?thesis
    by (auto simp add: py_lower_char_def Let_def of_char_of)
qed

lemma lower_idem: "lower (lower s) = lower s"
  by (simp add: lower_def py_lower_char_idem)

lemma py_lower_char_space: "py_lower_char CHR '' '' = CHR '' ''"
  by (simp add: py_lower_char_def)

lemma not_space_sp: "py_isspace CHR '' ''"
  by (simp add: py_isspace_def)


lemma split_ws_acc_append:
  "\<forall>c \<in> set w. \<not> py_isspace c \<Longrightarrow> split_ws_acc cur (w @ rest) = split_ws_acc (rev w @ cur) rest"
  by (induction w arbitrary: cur) auto

lemma split_ws_acc_word:
  "w \<in> set (split_ws_acc cur s) \<Longrightarrow> \<forall>c \<in> set cur. \<not> py_isspace c \<Longrightarrow> word w"
proof (induction s arbitrary: cur)
  case Nil
  then show ?case by (auto simp: word_def split: if_splits)
next
  case (Cons a s)
  show ?case
  proof (cases "py_isspace a")
    case True
    with Cons.prems have "w = rev cur \<and> cur \<noteq> [] \<or> w \<in> set (split_ws_acc [] s)"
      by (auto split: if_splits)
    then show ?thesis
    proof
      assume "w = rev cur \<and> cur \<noteq> []"
      with Cons.prems(2) show ?thesis by (simp add: word_def)
    next
      assume "w \<in> set (split_ws_acc [] s)"
      then show ?thesis by (rule Cons.IH) simp
    qed
  next
    case False
    with Cons.prems have "w \<in> set (split_ws_acc (a # cur) s)" by simp
    then show ?thesis by (rule Cons.IH) (use False Cons.prems(2) in simp)
  qed
qed

lemma split_ws_acc_words:
  "\<forall>c \<in> set cur. \<not> py_isspace c \<Longrightarrow> \<forall>w \<in> set (split_ws_acc cur s). word w"
  using split_ws_acc_word by blast

lemma split_ws_acc_chars:
  "w \<in> set (split_ws_acc cur s) \<Longrightarrow> set w \<subseteq> set cur \<union> set s"
proof (induction s arbitrary: cur)
  case Nil
  then show ?case by (auto split: if_splits)
next
  case (Cons a s)
  show ?case
  proof (cases "py_isspace a")
    case True
    with Cons.prems have "w = rev cur \<or> w \<in> set (split_ws_acc [] s)"
      by (auto split: if_splits)
    then show ?thesis
    proof
      assume "w = rev cur" then show ?thesis by auto
    next
      assume "w \<in> set (split_ws_acc [] s)"
      from Cons.IH [OF this] show ?thesis by auto
    qed
  next
    case False
    with Cons.prems have "w \<in> set (split_ws_acc (a # cur) s)" by simp
    from Cons.IH [OF this] show ?thesis by auto
  qed
qed

lemma split_ws_join:
  "\<forall>w \<in> set ws. word w \<Longrightarrow> split_ws (join_sp ws) = ws"
proof (induction ws rule: join_sp.induct)
  case 1
  then show ?case by (simp add: split_ws_def)
next
  case (2 w)
  then have "split_ws_acc [] (w @ []) = split_ws_acc (rev w @ []) []"
    by (intro split_ws_acc_append) (simp add: word_def)
  with 2 show ?case by (simp add: split_ws_def word_def)
next
  case (3 w v ws)
  then have w: "word w" and rest: "split_ws (join_sp (v # ws)) = v # ws" by simp_all
  have "split_ws_acc [] (w @ CHR '' '' # join_sp (v # ws))
      = split_ws_acc (rev w @ []) (CHR '' '' # join_sp (v # ws))"
    using w by (intro split_ws_acc_append) (simp add: word_def)
  with w rest show ?case by (simp add: split_ws_def word_def not_space_sp)
qed

lemma join_sp_Cons: "join_sp (w # ws) = (if ws = [] then w else w @ CHR '' '' # join_sp ws)"
  by (cases ws) simp_all

lemma join_sp_hd: "\<forall>w \<in> set ws. word w \<Longrightarrow> ws \<noteq> [] \<Longrightarrow> \<not> py_isspace (hd (join_sp ws)) \<and> join_sp ws \<noteq> []"
  by (cases ws) (auto simp: join_sp_Cons word_def)

lemma join_sp_last: "\<forall>w \<in> set ws. word w \<Longrightarrow> ws \<noteq> [] \<Longrightarrow> \<not> py_isspace (last (join_sp ws))"
proof (induction ws rule: join_sp.induct)
  case (3 w v ws)
  then have "\<not> py_isspace (last (join_sp (v # ws)))" by simp
  moreover have "join_sp (v # ws) \<noteq> []" using 3 join_sp_hd [of "v # ws"] by simp
  ultimately show ?case by simp
qed (auto simp: word_def)

lemma dropWhile_hd_id: "s \<noteq> [] \<Longrightarrow> \<not> P (hd s) \<Longrightarrow> dropWhile P s = s"
  by (cases s) auto

lemma strip_fixed:
  assumes "s \<noteq> []" "\<not> py_isspace (hd s)" "\<not> py_isspace (last s)"
  shows "strip s = s"
proof -
  have l: "lstrip s = s" using assms by (simp add: lstrip_def dropWhile_hd_id)
  have "dropWhile py_isspace (rev s) = rev s"
    using assms by (intro dropWhile_hd_id) (simp_all add: hd_rev)
  then have "rstrip s = s" by (simp add: rstrip_def)
  with l show ?thesis by (simp add: strip_def)
qed

lemma strip_Nil: "strip [] = []"
  by (simp add: strip_def lstrip_def rstrip_def)

lemma strip_join: "\<forall>w \<in> set ws. word w \<Longrightarrow> strip (join_sp ws) = join_sp ws"
proof (cases "ws = []")
  case True then show ?thesis by (simp add: strip_Nil)
next
  case False
  assume "\<forall>w \<in> set ws. word w"
  with False show ?thesis
    using join_sp_hd [of ws] join_sp_last [of ws] by (intro strip_fixed) auto
qed

lemma lower_join: "lower (join_sp ws) = join_sp (map lower ws)"
  by (induction ws rule: join_sp.induct) (simp_all add: lower_def py_lower_char_space)

lemma split_lower_fixed:
  assumes "w \<in> set (split_ws (lower s))" shows "lower w = w"
proof -
  from assms have "set w \<subseteq> set (lower s)"
    using split_ws_acc_chars [of w "[]" "lower s"] by (simp add: split_ws_def)
  then have "\<forall>c \<in> set w. py_lower_char c = c"
    by (auto simp: lower_def py_lower_char_idem)
  then show ?thesis by (simp add: lower_def map_idI)
qed

lemma split_ws_words: "\<forall>w \<in> set (split_ws s). word w"
  using split_ws_acc_words [of "[]" s] by (simp add: split_ws_def)

lemma normalize_join:
  assumes "\<forall>w \<in> set ws. word w" and "\<forall>w \<in> set ws. lower w = w"
  shows "normalize_name (Some (join_sp ws)) = join_sp ws"
proof -
  have "map lower ws = ws" using assms(2) by (simp add: map_idI)
  with assms(1) show ?thesis
    by (simp add: normalize_name_def or_empty_def strip_join lower_join split_ws_join)
qed

subsection \<open>The legacy index\<close>

lemma index_rows_lookup:
  "index_rows index rows k =
     (case index k of
        Some r \<Rightarrow> Some r
      | None \<Rightarrow> if k = [] then None
                else find (\<lambda>r. normalize_name (r ''MSW05_Binomial'') = k) rows)"
  by (induction rows arbitrary: index) (auto simp: Let_def split: option.splits)

lemma match_pantheria_keys:
  assumes "index' n = index n" and "index' (to_binomial n) = index (to_binomial n)"
    and "n = normalize_name (mammal_row ''scientific_name'')"
  shows "match_pantheria index' mammal_row = match_pantheria index mammal_row"
  using assms by (simp add: match_pantheria_def Let_def split: option.splits)

lemma to_binomial_two:
  "2 \<le> length (split_ws s) \<Longrightarrow> to_binomial s = split_ws s ! 0 @ '' '' @ split_ws s ! 1"
  by (auto simp: to_binomial_def split: list.splits)

lemma to_binomial_short: "length (split_ws s) < 2 \<Longrightarrow> to_binomial s = s"
  by (auto simp: to_binomial_def split: list.splits)

subsection \<open>Evaluating the conversions\<close>

lemmas round_eval = dec_context_def fl_def round_to_def floor_log_def scale_div_def rhe_div_def
  Let_def digit_count.simps

lemmas unit_defs = Q_KG_def Q_G_def Q_MG_def Q_TONNE_def Q_LB_def Q_DAY_def Q_WEEK_def
  Q_MONTH_def Q_YEAR_def Q_MPH_def Q_KMH_def Q_MPS_def Q_KNOT_def

lemma ex_g: "map_option dec_val (convert_mass_to_kg (Dec 1000 0) (Some Q_G)) = Some 1"
  by (simp add: convert_mass_to_kg_def unit_defs round_eval)

lemma ex_year: "map_option dec_val (convert_time_to_days (Dec 1 0) (Some Q_YEAR)) = Some (36525 / 100)"
  by (simp add: convert_time_to_days_def unit_defs round_eval)

lemma ex_knot: "map_option dec_val (convert_speed_to_mph (Dec 1 0) (Some Q_KNOT)) = Some (115077944802354 / 10 ^ 14)"
  by (simp add: convert_speed_to_mph_def unit_defs round_eval KNOT_TO_MPH_def)

lemma ex_yr2: "map_option dec_val (convert_time_to_years (Dec 1 0) (Some Q_DAY)) = Some (2737850787132101300479123888 / 10^30)"
  by (simp add: convert_time_to_years_def convert_time_to_days_def unit_defs round_eval)

subsection \<open>Rounding to the nearest: the quotient, the digit count, the logarithm\<close>

lemma rhe_div_near:
  assumes "0 < d"
  shows "\<bar>of_int (rhe_div n d) - (of_int n / of_int d :: rat)\<bar> \<le> 1 / 2"
proof -
  define q where "q = n div d"
  define r where "r = n mod d"
  have n: "n = q * d + r" by (simp add: q_def r_def)
  have r: "0 \<le> r" "r < d" using assms by (simp_all add: r_def)
  have d: "(0::rat) < of_int d" using assms by simp
  have x: "(of_int n / of_int d :: rat) = of_int q + of_int r / of_int d"
    using d by (simp add: n field_simps)
  have lo: "(0::rat) \<le> of_int r / of_int d" using r d by simp
  have hi: "(of_int r / of_int d :: rat) < 1" using r d by simp
  consider "2 * r < d" | "d < 2 * r" | "2 * r = d" by linarith
  then show ?thesis
  proof cases
    case 1
    then have "(of_int (2 * r) :: rat) < of_int d" by (simp only: of_int_less_iff)
    then have "(of_int r / of_int d :: rat) \<le> 1 / 2" using d by (simp add: field_simps)
    moreover have "rhe_div n d = q" using 1 by (simp add: rhe_div_def q_def r_def Let_def)
    ultimately show ?thesis using lo by (simp add: x)
  next
    case 2
    then have "(of_int d :: rat) < of_int (2 * r)" by (simp only: of_int_less_iff)
    then have "(1 / 2 :: rat) \<le> of_int r / of_int d" using d by (simp add: field_simps)
    moreover have "rhe_div n d = q + 1" using 2 by (simp add: rhe_div_def q_def r_def Let_def)
    ultimately show ?thesis using hi by (simp add: x)
  next
    case 3
    then have "(of_int (2 * r) :: rat) = of_int d" by simp
    then have h: "(of_int r / of_int d :: rat) = 1 / 2" using d by (simp add: field_simps)
    have "rhe_div n d = q \<or> rhe_div n d = q + 1"
      using 3 by (simp add: rhe_div_def q_def r_def Let_def)
    then show ?thesis by (auto simp add: x h)
  qed
qed

lemma rhe_div_int:
  assumes "0 < d" and "(of_int n / of_int d :: rat) = of_int z"
  shows "rhe_div n d = z"
proof -
  have "(of_int n :: rat) = of_int (z * d)" using assms by (simp add: field_simps)
  then have "n = z * d" by (simp only: of_int_eq_iff)
  then show ?thesis using assms(1) by (simp add: rhe_div_def Let_def)
qed

lemma digit_count_bounds:
  "2 \<le> b \<Longrightarrow> 0 < n \<Longrightarrow> b ^ (digit_count b n - 1) \<le> n \<and> n < b ^ digit_count b n"
proof (induction b n rule: digit_count.induct)
  case (1 b n)
  show ?case
  proof (cases "n < b")
    case True
    then show ?thesis using 1(2,3) by (simp add: digit_count.simps)
  next
    case False
    define k where "k = digit_count b (n div b)"
    have nb: "0 < n div b" using False 1(2) by (simp add: div_greater_zero_iff)
    have ih: "b ^ (k - 1) \<le> n div b \<and> n div b < b ^ k"
      using 1(1) False 1(2) nb by (simp add: k_def)
    have k: "0 < k"
    proof (rule ccontr)
      assume "\<not> 0 < k" then have "k = 0" by simp
      with ih nb show False by simp
    qed
    have dc: "digit_count b n = Suc k" using False 1(2) by (simp add: digit_count.simps [of b n] k_def)
    have "b ^ k = b * b ^ (k - 1)" using k by (cases k) simp_all
    also have "\<dots> \<le> b * (n div b)" using ih by simp
    also have "\<dots> \<le> n" by simp
    finally have lo: "b ^ k \<le> n" .
    have "n < b * (n div b) + b" using 1(2) 
      by (metis add.commute mod_less_divisor mult_div_mod_eq nat_add_left_cancel_less zero_less_numeral less_le_trans zero_less_iff_neq_zero not_numeral_le_zero)
    also have "\<dots> = b * (n div b + 1)" by simp
    also have "\<dots> \<le> b * b ^ k" using ih by (simp del: mult_Suc_right add: Suc_leI)
    finally have hi: "n < b ^ Suc k" by simp
    show ?thesis using lo hi by (simp add: dc)
  qed
qed

lemma powi_nat: "0 \<le> e \<Longrightarrow> (x::rat) powi e = x ^ nat e"
  by (simp add: power_int_def)

lemma powi_neg_nat: "e < 0 \<Longrightarrow> (x::rat) powi e = 1 / x ^ nat (- e)"
  by (simp add: power_int_def field_simps)

lemma abs_scale:
  fixes p :: rat
  assumes "0 < p"
  shows "\<bar>x - y\<bar> * p = \<bar>x * p - y * p\<bar>"
proof -
  have "\<bar>x * p - y * p\<bar> = \<bar>(x - y) * p\<bar>" by (simp only: left_diff_distrib)
  also have "\<dots> = \<bar>x - y\<bar> * \<bar>p\<bar>" by (rule abs_mult)
  finally show ?thesis using assms by simp
qed

lemma floor_log_bounds:
  assumes b: "2 \<le> b" and a: "0 < a" and d: "0 < d"
  shows "(of_nat b :: rat) powi floor_log b a d \<le> of_int a / of_int d
       \<and> (of_int a / of_int d :: rat) < of_nat b powi (floor_log b a d + 1)"
proof -
  define B :: rat where "B = of_nat b"
  have B: "1 < B" "0 < B" "B \<noteq> 0" using b by (simp_all add: B_def)
  define ka where "ka = digit_count b (nat a)"
  define kd where "kd = digit_count b (nat d)"
  define e0 where "e0 = int ka - int kd"
  have ba: "b ^ (ka - 1) \<le> nat a \<and> nat a < b ^ ka"
    using digit_count_bounds [OF b, of "nat a"] a by (simp add: ka_def)
  have bd: "b ^ (kd - 1) \<le> nat d \<and> nat d < b ^ kd"
    using digit_count_bounds [OF b, of "nat d"] d by (simp add: kd_def)
  have ka: "0 < ka"
  proof (rule ccontr)
    assume "\<not> 0 < ka" then have "ka = 0" by simp
    with ba a show False by simp
  qed
  have kd: "0 < kd"
  proof (rule ccontr)
    assume "\<not> 0 < kd" then have "kd = 0" by simp
    with bd d show False by simp
  qed
  have ra: "(of_int a :: rat) = of_nat (nat a)" using a by simp
  have rd: "(of_int d :: rat) = of_nat (nat d)" using d by simp
  have a_lo: "B ^ (ka - 1) \<le> of_int a"
    using ba unfolding ra B_def by (metis of_nat_le_iff of_nat_power)
  have a_hi: "of_int a < B ^ ka"
    using ba unfolding ra B_def by (metis of_nat_less_iff of_nat_power)
  have d_lo: "B ^ (kd - 1) \<le> of_int d"
    using bd unfolding rd B_def by (metis of_nat_le_iff of_nat_power)
  have d_hi: "of_int d < B ^ kd"
    using bd unfolding rd B_def by (metis of_nat_less_iff of_nat_power)
  have dpos: "(0::rat) < of_int d" using d by simp
  have apos: "(0::rat) < of_int a" using a by simp
  have pa: "B ^ ka = B powi int ka" by simp
  have pa1: "B ^ (ka - 1) = B powi (int ka - 1)" using ka B by (simp add: power_int_def nat_diff_distrib')
  have pd: "B ^ kd = B powi int kd" by simp
  have pd1: "B ^ (kd - 1) = B powi (int kd - 1)" using kd B by (simp add: power_int_def nat_diff_distrib')
  \<comment> \<open>the quotient lies strictly between the powers \<open>e0 - 1\<close> and \<open>e0 + 1\<close>\<close>
  have up: "of_int a / of_int d < B powi (e0 + 1)"
  proof -
    have "of_int a * B powi (int kd - 1) < B powi int ka * of_int d"
    proof -
      have "of_int a * B powi (int kd - 1) \<le> of_int a * of_int d"
        using d_lo apos by (simp add: pd1 [symmetric])
      also have "\<dots> < B powi int ka * of_int d"
        using a_hi dpos by (simp add: pa [symmetric])
      finally show ?thesis .
    qed
    moreover have "B powi (e0 + 1) = B powi int ka / B powi (int kd - 1)"
    proof -
      have "e0 + 1 = int ka - (int kd - 1)" by (simp add: e0_def)
      then have "B powi (e0 + 1) = B powi (int ka - (int kd - 1))" by (simp only:)
      also have "\<dots> = B powi int ka / B powi (int kd - 1)"
        by (rule power_int_diff) (simp add: B)
      finally show ?thesis .
    qed
    moreover have "0 < B powi (int kd - 1)" using B by simp
    ultimately show ?thesis using dpos by (simp add: field_simps)
  qed
  have low: "B powi (e0 - 1) < of_int a / of_int d"
  proof -
    have "B powi (int ka - 1) * of_int d < of_int a * B powi int kd"
    proof -
      have "B powi (int ka - 1) * of_int d \<le> of_int a * of_int d"
        using a_lo dpos by (simp add: pa1 [symmetric])
      also have "\<dots> < of_int a * B powi int kd"
        using d_hi apos by (simp add: pd [symmetric])
      finally show ?thesis .
    qed
    moreover have "B powi (e0 - 1) = B powi (int ka - 1) / B powi int kd"
    proof -
      have "e0 - 1 = int ka - 1 - int kd" by (simp add: e0_def)
      then have "B powi (e0 - 1) = B powi (int ka - 1 - int kd)" by (simp only:)
      also have "\<dots> = B powi (int ka - 1) / B powi int kd"
        by (rule power_int_diff) (simp add: B)
      finally show ?thesis .
    qed
    moreover have "0 < B powi int kd" using B by simp
    ultimately show ?thesis using dpos by (simp add: field_simps)
  qed
  \<comment> \<open>the test of the code compares the quotient with the power \<open>e0\<close>\<close>
  have test: "(if 0 \<le> e0 then d * int b ^ nat e0 \<le> a else d \<le> a * int b ^ nat (- e0))
      \<longleftrightarrow> B powi e0 \<le> of_int a / of_int d"
  proof (cases "0 \<le> e0")
    case True
    have "d * int b ^ nat e0 \<le> a \<longleftrightarrow> (of_int (d * int b ^ nat e0) :: rat) \<le> of_int a"
      by (simp only: of_int_le_iff)
    also have "\<dots> \<longleftrightarrow> of_int d * B ^ nat e0 \<le> of_int a" by (simp add: B_def)
    also have "\<dots> \<longleftrightarrow> B ^ nat e0 \<le> of_int a / of_int d" using dpos by (simp add: field_simps)
    finally show ?thesis using True by (simp add: powi_nat)
  next
    case False
    then have neg: "e0 < 0" by simp
    have bp: "0 < B ^ nat (- e0)" using B by simp
    have "d \<le> a * int b ^ nat (- e0) \<longleftrightarrow> (of_int d :: rat) \<le> of_int (a * int b ^ nat (- e0))"
      by (simp only: of_int_le_iff)
    also have "\<dots> \<longleftrightarrow> of_int d \<le> of_int a * B ^ nat (- e0)" by (simp add: B_def)
    also have "\<dots> \<longleftrightarrow> 1 / B ^ nat (- e0) \<le> of_int a / of_int d"
      using dpos bp by (simp add: field_simps)
    finally show ?thesis using False neg by (simp add: powi_neg_nat)
  qed
  have fl: "floor_log b a d = (if B powi e0 \<le> of_int a / of_int d then e0 else e0 - 1)"
    unfolding floor_log_def Let_def ka_def [symmetric] kd_def [symmetric] e0_def [symmetric]
    using test by simp
  show ?thesis
  proof (cases "B powi e0 \<le> of_int a / of_int d")
    case True
    then show ?thesis using up fl by (simp add: B_def)
  next
    case False
    then have "of_int a / of_int d < B powi (e0 - 1 + 1)" by simp
    then show ?thesis using low fl False unfolding B_def [symmetric] by (simp del: of_nat_power)
  qed
qed

lemma scale_div_near:
  assumes b: "0 < b" and d: "0 < d"
  shows "\<bar>of_int (scale_div b n d E) * of_nat b powi E - (of_int n / of_int d :: rat)\<bar>
           \<le> of_nat b powi E / 2"
proof -
  define B :: rat where "B = of_nat b"
  have B: "0 < B" "B \<noteq> 0" using b by (simp_all add: B_def)
  have P: "0 < B powi E" using B by simp
  show ?thesis
  proof (cases "0 \<le> E")
    case True
    define D where "D = d * int b ^ nat E"
    have D: "0 < D" using d b by (simp add: D_def)
    have s: "scale_div b n d E = rhe_div n D" using True by (simp add: scale_div_def D_def)
    have q: "(of_int n / of_int D :: rat) * B powi E = of_int n / of_int d"
      using True B d by (simp add: D_def B_def powi_nat)
    have "\<bar>of_int (rhe_div n D) - (of_int n / of_int D :: rat)\<bar> * B powi E \<le> 1 / 2 * B powi E"
      using rhe_div_near [OF D, of n] P by (simp only: mult_le_cancel_right_pos)
    then have "\<bar>of_int (rhe_div n D) * B powi E - of_int n / of_int D * B powi E\<bar>
        \<le> 1 / 2 * B powi E"
      by (simp only: abs_scale [OF P])
    then show ?thesis unfolding s q B_def [symmetric] by simp
  next
    case False
    then have neg: "E < 0" by simp
    define N where "N = n * int b ^ nat (- E)"
    have s: "scale_div b n d E = rhe_div N d" using False by (simp add: scale_div_def N_def)
    have q: "(of_int N / of_int d :: rat) * B powi E = of_int n / of_int d"
      using neg B d by (simp add: N_def B_def powi_neg_nat)
    have "\<bar>of_int (rhe_div N d) - (of_int N / of_int d :: rat)\<bar> * B powi E \<le> 1 / 2 * B powi E"
      using rhe_div_near [OF d, of N] P by (simp only: mult_le_cancel_right_pos)
    then have "\<bar>of_int (rhe_div N d) * B powi E - of_int N / of_int d * B powi E\<bar>
        \<le> 1 / 2 * B powi E"
      by (simp only: abs_scale [OF P])
    then show ?thesis unfolding s q B_def [symmetric] by simp
  qed
qed

lemma scale_div_int:
  assumes b: "0 < b" and d: "0 < d"
    and z: "(of_int n / of_int d :: rat) = of_int z * of_nat b powi E"
  shows "scale_div b n d E = z"
proof -
  define B :: rat where "B = of_nat b"
  have B: "0 < B" "B \<noteq> 0" using b by (simp_all add: B_def)
  show ?thesis
  proof (cases "0 \<le> E")
    case True
    define D where "D = d * int b ^ nat E"
    have D: "0 < D" using d b by (simp add: D_def)
    have "(of_int n / of_int D :: rat) = of_int z"
      using True B d z by (simp add: D_def B_def powi_nat field_simps)
    from rhe_div_int [OF D this] show ?thesis using True by (simp add: scale_div_def D_def)
  next
    case False
    then have neg: "E < 0" by simp
    define N where "N = n * int b ^ nat (- E)"
    have bp: "0 < B ^ nat (- E)" using B by simp
    have "(of_int N / of_int d :: rat) = of_int n / of_int d * B ^ nat (- E)"
      by (simp add: N_def B_def)
    also have "\<dots> = of_int z" using neg bp z by (simp add: B_def powi_neg_nat)
    finally have "(of_int N / of_int d :: rat) = of_int z" .
    from rhe_div_int [OF d this] show ?thesis using False by (simp add: scale_div_def N_def)
  qed
qed

subsection \<open>The results of the context are rounded exact results\<close>

lemma round_to_near:
  assumes b: "2 \<le> b" and d: "0 < d"
  shows "case round_to b prec emin n d of (m, E) \<Rightarrow>
           \<bar>of_int m * of_nat b powi E - (of_int n / of_int d :: rat)\<bar>
             \<le> \<bar>of_int n / of_int d\<bar> * of_nat b powi (1 - int prec) / 2 + of_nat b powi emin / 2"
proof (cases "n = 0")
  case True
  have "(0::rat) \<le> of_nat b powi emin / 2" by simp
  then show ?thesis using True by (simp add: round_to_def)
next
  case False
  define B :: rat where "B = of_nat b"
  have B: "1 \<le> B" "0 < B" "B \<noteq> 0" using b by (simp_all add: B_def)
  define f where "f = floor_log b \<bar>n\<bar> d"
  define E where "E = max (f - (int prec - 1)) emin"
  have r: "round_to b prec emin n d = (scale_div b n d E, E)"
    using False by (simp add: round_to_def Let_def E_def f_def)
  have b0: "0 < b" using b by simp
  have near: "\<bar>of_int (scale_div b n d E) * B powi E - (of_int n / of_int d :: rat)\<bar> \<le> B powi E / 2"
    using scale_div_near [OF b0 d, of n E] by (simp add: B_def)
  have x: "B powi f \<le> \<bar>of_int n / of_int d\<bar>"
  proof -
    have "0 < \<bar>n\<bar>" using False by simp
    from floor_log_bounds [OF b this d]
    have "B powi f \<le> of_int \<bar>n\<bar> / of_int d" by (simp add: B_def f_def)
    also have "\<dots> = \<bar>of_int n / of_int d :: rat\<bar>" using d by (simp add: abs_of_pos)
    finally show ?thesis .
  qed
  have E: "E = f - (int prec - 1) \<or> E = emin" by (auto simp add: E_def max_def)
  have "B powi E \<le> \<bar>of_int n / of_int d\<bar> * B powi (1 - int prec) + B powi emin"
  proof -
    from E show ?thesis
    proof
      assume e: "E = f - (int prec - 1)"
      have "B powi E = B powi (f + (1 - int prec))" by (simp add: e algebra_simps)
      also have "\<dots> = B powi f * B powi (1 - int prec)" using B by (simp add: power_int_add)
      also have "\<dots> \<le> \<bar>of_int n / of_int d\<bar> * B powi (1 - int prec)"
        using x B by (intro mult_right_mono) simp_all
      finally have "B powi E \<le> \<bar>of_int n / of_int d\<bar> * B powi (1 - int prec)" .
      moreover have "0 \<le> B powi emin" using B by simp
      ultimately show ?thesis by linarith
    next
      assume e: "E = emin"
      have "0 \<le> \<bar>of_int n / of_int d :: rat\<bar> * B powi (1 - int prec)" using B by simp
      then show ?thesis unfolding e by linarith
    qed
  qed
  then have "B powi E / 2 \<le> (\<bar>of_int n / of_int d\<bar> * B powi (1 - int prec) + B powi emin) / 2"
    by (simp only: divide_right_mono zero_le_numeral)
  also have "\<dots> = \<bar>of_int n / of_int d\<bar> * B powi (1 - int prec) / 2 + B powi emin / 2"
    by (simp only: add_divide_distrib)
  finally have "B powi E / 2
      \<le> \<bar>of_int n / of_int d\<bar> * B powi (1 - int prec) / 2 + B powi emin / 2" .
  with near have "\<bar>of_int (scale_div b n d E) * B powi E - (of_int n / of_int d :: rat)\<bar>
      \<le> \<bar>of_int n / of_int d\<bar> * B powi (1 - int prec) / 2 + B powi emin / 2"
    by (rule order_trans)
  then show ?thesis unfolding r B_def by simp
qed

lemma round_to_exact:
  assumes b: "2 \<le> b" and d: "0 < d"
    and x: "(of_int n / of_int d :: rat) = of_int k * of_nat b powi j"
    and k: "\<bar>k\<bar> < int b ^ prec" and j: "emin \<le> j"
  shows "case round_to b prec emin n d of (m, E) \<Rightarrow>
           of_int m * of_nat b powi E = (of_int n / of_int d :: rat)"
proof (cases "n = 0")
  case True
  then show ?thesis by (simp add: round_to_def)
next
  case False
  define B :: rat where "B = of_nat b"
  have B: "1 \<le> B" "0 < B" "B \<noteq> 0" "1 < B" using b by (simp_all add: B_def)
  define f where "f = floor_log b \<bar>n\<bar> d"
  define E where "E = max (f - (int prec - 1)) emin"
  have r: "round_to b prec emin n d = (scale_div b n d E, E)"
    using False by (simp add: round_to_def Let_def E_def f_def)
  have b0: "0 < b" using b by simp
  have fx: "B powi f \<le> \<bar>of_int n / of_int d\<bar>"
  proof -
    have "0 < \<bar>n\<bar>" using False by simp
    from floor_log_bounds [OF b this d]
    have "B powi f \<le> of_int \<bar>n\<bar> / of_int d" by (simp add: B_def f_def)
    also have "\<dots> = \<bar>of_int n / of_int d :: rat\<bar>" using d by (simp add: abs_of_pos)
    finally show ?thesis .
  qed
  have kb: "(of_int \<bar>k\<bar> :: rat) < B ^ prec"
  proof -
    have "(of_int \<bar>k\<bar> :: rat) < of_int (int b ^ prec)" using k by (simp only: of_int_less_iff)
    then show ?thesis by (simp add: B_def)
  qed
  have "\<bar>of_int n / of_int d :: rat\<bar> = of_int \<bar>k\<bar> * B powi j"
    using B by (simp add: x B_def abs_mult)
  also have "\<dots> < B ^ prec * B powi j" using kb B by (intro mult_strict_right_mono) simp_all
  also have "\<dots> = B powi (int prec + j)" using B by (simp add: power_int_add)
  finally have "B powi f < B powi (int prec + j)" using fx by simp
  then have "f < int prec + j"
  proof -
    assume h: "B powi f < B powi (int prec + j)"
    show ?thesis
    proof (rule ccontr)
      assume "\<not> f < int prec + j"
      then have "int prec + j \<le> f" by simp
      then have "B powi (int prec + j) \<le> B powi f" using B(1) by (rule power_int_increasing)
      with h show False by simp
    qed
  qed
  then have Ej: "E \<le> j" using j by (simp add: E_def)
  define z where "z = k * int b ^ nat (j - E)"
  have "B powi j = B powi (j - E) * B powi E"
  proof -
    have "j = (j - E) + E" by simp
    then have "B powi j = B powi ((j - E) + E)" by (simp only:)
    also have "\<dots> = B powi (j - E) * B powi E" by (rule power_int_add) (simp add: B)
    finally show ?thesis .
  qed
  moreover have "B powi (j - E) = B ^ nat (j - E)" using Ej by (simp add: powi_nat)
  ultimately have "(of_int n / of_int d :: rat) = of_int z * B powi E"
    by (simp add: x z_def B_def)
  then have zz: "(of_int n / of_int d :: rat) = of_int z * of_nat b powi E" by (simp add: B_def)
  from scale_div_int [OF b0 d zz] have "scale_div b n d E = z" .
  then show ?thesis unfolding r using zz by simp
qed

lemma dec_context_Etiny:
  "dec_context n d = (case round_to 10 28 Etiny n d of (m, e) \<Rightarrow> Dec m e)"
  by (simp only: dec_context_def Etiny_def)

lemma dec_context_near:
  assumes "0 < d"
  shows "\<bar>dec_val (dec_context n d) - of_int n / of_int d\<bar>
           \<le> \<bar>of_int n / of_int d\<bar> * 5 / 10 ^ 28 + 10 powi Etiny / 2"
proof -
  obtain m E where r: "round_to 10 28 Etiny n d = (m, E)" by (cases "round_to 10 28 Etiny n d")
  define x :: rat where "x = of_int n / of_int d"
  have "(2::nat) \<le> 10" by simp
  from round_to_near [OF this assms, where prec = 28 and emin = Etiny and n = n]
  have A: "\<bar>of_int m * of_nat 10 powi E - x\<bar>
      \<le> \<bar>x\<bar> * of_nat 10 powi (1 - int 28) / 2 + of_nat 10 powi Etiny / 2"
    unfolding r x_def by (simp only: prod.case)
  have B: "(of_nat 10 :: rat) = 10" by simp
  have C: "(10::rat) powi (1 - int 28) = 1 / 10 ^ 27"
    by (simp add: power_int_def power_divide)
  have D: "\<bar>x\<bar> * (1 / 10 ^ 27) / 2 = \<bar>x\<bar> * 5 / 10 ^ 28" by simp
  from A have "\<bar>of_int m * 10 powi E - x\<bar> \<le> \<bar>x\<bar> * 5 / 10 ^ 28 + 10 powi Etiny / 2"
    by (simp only: B C D)
  then show ?thesis by (simp only: dec_context_Etiny r prod.case dec_val.simps x_def)
qed

lemma dec_context_exact:
  assumes "0 < d" and "(of_int n / of_int d :: rat) = of_int k * 10 powi j"
    and "\<bar>k\<bar> < 10 ^ 28" and "Etiny \<le> j"
  shows "dec_val (dec_context n d) = of_int n / of_int d"
proof -
  obtain m E where r: "round_to 10 28 Etiny n d = (m, E)" by (cases "round_to 10 28 Etiny n d")
  have b: "(2::nat) \<le> 10" by simp
  have x: "(of_int n / of_int d :: rat) = of_int k * of_nat 10 powi j" using assms(2) by simp
  have k: "\<bar>k\<bar> < int 10 ^ 28" using assms(3) by simp
  from round_to_exact [OF b assms(1) x k assms(4)]
  have "of_int m * 10 powi E = (of_int n / of_int d :: rat)" by (simp add: r)
  then show ?thesis by (simp only: dec_context_Etiny r prod.case dec_val.simps)
qed

lemma dec_mul_ratio:
  "\<exists>N D. 0 < D \<and> dec_mul a b = dec_context N D \<and> of_int N / of_int D = dec_val a * dec_val b"
proof (cases a; cases b)
  fix m1 e1 m2 e2
  assume a: "a = Dec m1 e1" and b: "b = Dec m2 e2"
  have p: "(10::rat) powi e1 * 10 powi e2 = 10 powi (e1 + e2)" by (simp add: power_int_add)
  show ?thesis
  proof (cases "0 \<le> e1 + e2")
    case True
    have "dec_mul a b = dec_context (m1 * m2 * 10 ^ nat (e1 + e2)) 1"
      using True by (simp add: a b Let_def)
    moreover have "of_int (m1 * m2 * 10 ^ nat (e1 + e2)) / of_int 1 = dec_val a * dec_val b"
      using True p [symmetric] by (simp add: a b powi_nat)
    ultimately show ?thesis by (intro exI [of _ "m1 * m2 * 10 ^ nat (e1 + e2)"] exI [of _ 1]) simp
  next
    case False
    then have neg: "e1 + e2 < 0" by simp
    have "dec_mul a b = dec_context (m1 * m2) (10 ^ nat (- (e1 + e2)))"
      using False by (simp add: a b Let_def)
    moreover have "of_int (m1 * m2) / of_int (10 ^ nat (- (e1 + e2))) = dec_val a * dec_val b"
    proof -
      have "dec_val a * dec_val b = of_int m1 * of_int m2 * (10 powi e1 * 10 powi e2)"
        by (simp add: a b)
      also have "\<dots> = of_int m1 * of_int m2 * (1 / 10 ^ nat (- (e1 + e2)))"
        by (simp only: p powi_neg_nat [OF neg])
      finally show ?thesis by simp
    qed
    moreover have "(0::int) < 10 ^ nat (- (e1 + e2))" by simp
    ultimately show ?thesis
      by (intro exI [of _ "m1 * m2"] exI [of _ "10 ^ nat (- (e1 + e2))"]) simp
  qed
qed

lemma dec_div_ratio:
  assumes "dec_val b \<noteq> 0"
  shows "\<exists>N D. 0 < D \<and> dec_div a b = dec_context N D \<and> of_int N / of_int D = dec_val a / dec_val b"
proof (cases a; cases b)
  fix m1 e1 m2 e2
  assume a: "a = Dec m1 e1" and b: "b = Dec m2 e2"
  have m2: "m2 \<noteq> 0" using assms by (auto simp add: b)
  have p: "(10::rat) powi e1 / 10 powi e2 = 10 powi (e1 - e2)" by (simp add: power_int_diff)
  have s: "(of_int (m1 * sgn m2) :: rat) / of_int \<bar>m2\<bar> = of_int m1 / of_int m2"
    using m2 by (cases "0 < m2") (simp_all add: sgn_if field_simps)
  have v: "dec_val a / dec_val b = of_int m1 / of_int m2 * 10 powi (e1 - e2)"
    using p [symmetric] by (simp add: a b)
  have d: "0 < \<bar>m2\<bar>" using m2 by simp
  show ?thesis
  proof (cases "0 \<le> e1 - e2")
    case True
    have "dec_div a b = dec_context (m1 * sgn m2 * 10 ^ nat (e1 - e2)) \<bar>m2\<bar>"
      using True by (simp add: a b Let_def)
    moreover have "of_int (m1 * sgn m2 * 10 ^ nat (e1 - e2)) / of_int \<bar>m2\<bar> = dec_val a / dec_val b"
    proof -
      have "(of_int (m1 * sgn m2 * 10 ^ nat (e1 - e2)) :: rat) / of_int \<bar>m2\<bar>
          = of_int (m1 * sgn m2) / of_int \<bar>m2\<bar> * 10 ^ nat (e1 - e2)" by simp
      also have "\<dots> = of_int m1 / of_int m2 * 10 powi (e1 - e2)"
        using True by (simp only: s powi_nat)
      finally show ?thesis by (simp only: v)
    qed
    ultimately show ?thesis using d by blast
  next
    case False
    then have neg: "e1 - e2 < 0" by simp
    have "dec_div a b = dec_context (m1 * sgn m2) (\<bar>m2\<bar> * 10 ^ nat (- (e1 - e2)))"
      using False by (simp add: a b Let_def)
    moreover have "of_int (m1 * sgn m2) / of_int (\<bar>m2\<bar> * 10 ^ nat (- (e1 - e2)))
        = dec_val a / dec_val b"
    proof -
      have "(of_int (m1 * sgn m2) :: rat) / of_int (\<bar>m2\<bar> * 10 ^ nat (- (e1 - e2)))
          = of_int (m1 * sgn m2) / of_int \<bar>m2\<bar> * (1 / 10 ^ nat (- (e1 - e2)))" by simp
      also have "\<dots> = of_int m1 / of_int m2 * 10 powi (e1 - e2)"
        by (simp only: s powi_neg_nat [OF neg])
      finally show ?thesis by (simp only: v)
    qed
    moreover have "0 < \<bar>m2\<bar> * 10 ^ nat (- (e1 - e2))" using d by simp
    ultimately show ?thesis by blast
  qed
qed

lemma dec_mul_near:
  "\<bar>dec_val (dec_mul a b) - dec_val a * dec_val b\<bar>
     \<le> \<bar>dec_val a * dec_val b\<bar> * 5 / 10 ^ 28 + 10 powi Etiny / 2"
proof -
  obtain N D where h: "0 < D" "dec_mul a b = dec_context N D"
      "of_int N / of_int D = dec_val a * dec_val b"
    using dec_mul_ratio [of a b] by blast
  from dec_context_near [OF h(1), of N] show ?thesis by (simp only: h(2) h(3))
qed

lemma dec_mul_exact:
  assumes "dec_val a * dec_val b = of_int k * 10 powi j" and "\<bar>k\<bar> < 10 ^ 28" and "Etiny \<le> j"
  shows "dec_val (dec_mul a b) = dec_val a * dec_val b"
proof -
  obtain N D where h: "0 < D" "dec_mul a b = dec_context N D"
      "of_int N / of_int D = dec_val a * dec_val b"
    using dec_mul_ratio [of a b] by blast
  have "(of_int N / of_int D :: rat) = of_int k * 10 powi j" by (simp only: h(3) assms(1))
  from dec_context_exact [OF h(1) this assms(2) assms(3)] show ?thesis by (simp only: h(2) h(3))
qed

lemma dec_div_near:
  assumes "dec_val b \<noteq> 0"
  shows "\<bar>dec_val (dec_div a b) - dec_val a / dec_val b\<bar>
     \<le> \<bar>dec_val a / dec_val b\<bar> * 5 / 10 ^ 28 + 10 powi Etiny / 2"
proof -
  obtain N D where h: "0 < D" "dec_div a b = dec_context N D"
      "of_int N / of_int D = dec_val a / dec_val b"
    using dec_div_ratio [OF assms, of a] by blast
  from dec_context_near [OF h(1), of N] show ?thesis by (simp only: h(2) h(3))
qed

lemma dec_div_exact:
  assumes "dec_val b \<noteq> 0"
    and "dec_val a / dec_val b = of_int k * 10 powi j" and "\<bar>k\<bar> < 10 ^ 28" and "Etiny \<le> j"
  shows "dec_val (dec_div a b) = dec_val a / dec_val b"
proof -
  obtain N D where h: "0 < D" "dec_div a b = dec_context N D"
      "of_int N / of_int D = dec_val a / dec_val b"
    using dec_div_ratio [OF assms(1), of a] by blast
  have "(of_int N / of_int D :: rat) = of_int k * 10 powi j" by (simp only: h(3) assms(2))
  from dec_context_exact [OF h(1) this assms(3) assms(4)] show ?thesis by (simp only: h(2) h(3))
qed

lemma dec_mul_rounded:
  assumes "dec_val c = x"
  shows "context_rounded (dec_val v * x) (dec_mul v c)"
  unfolding context_rounded_def assms [symmetric]
  using dec_mul_near [of v c] dec_mul_exact [of v c] by blast

lemma dec_div_rounded:
  assumes "dec_val c = x" and "x \<noteq> 0"
  shows "context_rounded (dec_val v / x) (dec_div v c)"
proof -
  have c: "dec_val c \<noteq> 0" using assms by simp
  show ?thesis
    unfolding context_rounded_def assms(1) [symmetric]
    using dec_div_near [OF c, of v] dec_div_exact [OF c, of v] by blast
qed

lemma const_vals:
  "dec_val (Dec 1000 0) = 1000"
  "dec_val (Dec 1000000 0) = 1000000"
  "dec_val (Dec 45359237 (- 8)) = 45359237 / 10 ^ 8"
  "dec_val (Dec 7 0) = 7"
  "dec_val (Dec 304375 (- 4)) = 304375 / 10 ^ 4"
  "dec_val (Dec 36525 (- 2)) = 36525 / 10 ^ 2"
  "dec_val (Dec 621371192237334 (- 15)) = 621371192237334 / 10 ^ 15"
  "dec_val (Dec 22369362920544 (- 13)) = 22369362920544 / 10 ^ 13"
  "dec_val (Dec 115077944802354 (- 14)) = 115077944802354 / 10 ^ 14"
  by (simp_all add: power_int_def power_divide)

lemma ex_week: "map_option dec_val (convert_time_to_days (Dec 5 0) (Some Q_WEEK)) = Some 35"
  by (simp add: convert_time_to_days_def unit_defs round_eval)

lemma ex_lb: "map_option dec_val (convert_mass_to_kg (Dec 2 0) (Some Q_LB)) = Some (90718474 / 10 ^ 8)"
  by (simp add: convert_mass_to_kg_def unit_defs round_eval LB_TO_KG_def)

lemma ex_days: "map_option dec_val (convert_time_to_years (Dec 1461 0) (Some Q_DAY)) = Some 4"
  by (simp add: convert_time_to_years_def convert_time_to_days_def unit_defs round_eval)

subsection \<open>The greatest converted value\<close>

lemma powi_shift:
  fixes b :: rat
  assumes "k \<le> e" "b \<noteq> 0"
  shows "of_int m * b powi e = of_int m * b ^ nat (e - k) * b powi k"
proof -
  have "b powi e = b powi (e - k) * b powi k"
    using assms(2) by (simp add: power_int_add [symmetric])
  moreover have "b powi (e - k) = b ^ nat (e - k)"
    using assms(1) by (simp add: power_int_def)
  ultimately show ?thesis by simp
qed

lemma dec_lt_val: "dec_lt a b \<longleftrightarrow> dec_val a < dec_val b"
proof (cases a; cases b)
  fix m1 e1 m2 e2
  assume a: "a = Dec m1 e1" and b: "b = Dec m2 e2"
  define k where "k = min e1 e2"
  have k: "k \<le> e1" "k \<le> e2" by (simp_all add: k_def)
  have p: "(0::rat) < 10 powi k" by simp
  have "dec_val a = of_int (m1 * 10 ^ nat (e1 - k)) * 10 powi k"
    using powi_shift [OF k(1), of 10 m1] by (simp add: a)
  moreover have "dec_val b = of_int (m2 * 10 ^ nat (e2 - k)) * 10 powi k"
    using powi_shift [OF k(2), of 10 m2] by (simp add: b)
  ultimately have "dec_val a < dec_val b \<longleftrightarrow>
      (of_int (m1 * 10 ^ nat (e1 - k)) :: rat) < of_int (m2 * 10 ^ nat (e2 - k))"
    using p by (simp only: mult_less_cancel_right_pos)
  also have "\<dots> \<longleftrightarrow> m1 * 10 ^ nat (e1 - k) < m2 * 10 ^ nat (e2 - k)"
    by (simp only: of_int_less_iff)
  finally show ?thesis by (simp add: a b k_def Let_def)
qed

lemma max_from_mem: "max_from best xs \<in> set (best # xs)"
  by (induction xs arbitrary: best) auto

lemma max_from_ge_best: "dec_val best \<le> dec_val (max_from best xs)"
proof (induction xs arbitrary: best)
  case (Cons x xs)
  have "dec_val best \<le> dec_val (if dec_lt best x then x else best)"
    by (simp add: dec_lt_val)
  also have "\<dots> \<le> dec_val (max_from (if dec_lt best x then x else best) xs)"
    by (rule Cons.IH)
  finally show ?case by simp
qed simp

lemma max_from_ge: "x \<in> set (best # xs) \<Longrightarrow> dec_val x \<le> dec_val (max_from best xs)"
proof (induction xs arbitrary: best)
  case (Cons y ys)
  let ?b = "if dec_lt best y then y else best"
  from Cons.prems consider "x = best" | "x = y" | "x \<in> set ys" by auto
  then show ?case
  proof cases
    case 1
    have "dec_val best \<le> dec_val ?b" by (simp add: dec_lt_val)
    also have "\<dots> \<le> dec_val (max_from ?b ys)" by (rule max_from_ge_best)
    finally show ?thesis using 1 by simp
  next
    case 2
    have "dec_val y \<le> dec_val ?b" by (simp add: dec_lt_val)
    also have "\<dots> \<le> dec_val (max_from ?b ys)" by (rule max_from_ge_best)
    finally show ?thesis using 2 by simp
  next
    case 3
    then have "x \<in> set (?b # ys)" by simp
    from Cons.IH [OF this] show ?thesis by simp
  qed
qed simp

lemma float_max_None: "float_max conv = None \<longleftrightarrow> conv = []"
  by (simp add: float_max_def split: list.splits)

lemma float_max_Some:
  assumes "conv \<noteq> []"
  shows "\<exists>c \<in> set conv. float_max conv = Some (float_of_decimal c)
           \<and> (\<forall>c' \<in> set conv. dec_val c' \<le> dec_val c)"
proof -
  from assms obtain c cs where conv: "conv = c # cs" by (cases conv) auto
  have "max_from c cs \<in> set conv" using max_from_mem [of c cs] by (simp add: conv)
  moreover have "float_max conv = Some (float_of_decimal (max_from c cs))"
    by (simp add: float_max_def conv)
  moreover have "\<forall>c' \<in> set conv. dec_val c' \<le> dec_val (max_from c cs)"
    using max_from_ge [of _ c cs] by (simp add: conv)
  ultimately show ?thesis by blast
qed

lemma converted_Nil: "converted f [] = []"
  by (simp add: converted_def List.map_filter_simps)

lemma converted_Cons:
  "converted f ((v, u) # qs) =
     (case f v u of None \<Rightarrow> converted f qs | Some c \<Rightarrow> c # converted f qs)"
  by (cases "f v u") (simp_all add: converted_def List.map_filter_simps)

lemma set_converted: "set (converted f qs) = {c. \<exists>(v, u) \<in> set qs. f v u = Some c}"
proof (induction qs)
  case Nil
  then show ?case by (simp add: converted_Nil)
next
  case (Cons q qs)
  obtain v u where q: "q = (v, u)" by (cases q)
  show ?case
    by (cases "f v u") (auto simp: q converted_Cons Cons.IH)
qed

lemma litter_loop_max:
  "litter_loop best qs =
     (case best of
        None \<Rightarrow> (case converted unitless qs of [] \<Rightarrow> None | v # vs \<Rightarrow> Some (max_from v vs))
      | Some b \<Rightarrow> Some (max_from b (converted unitless qs)))"
proof (induction qs arbitrary: best)
  case Nil
  then show ?case by (simp add: converted_Nil split: option.splits)
next
  case (Cons q qs)
  obtain v u where q: "q = (v, u)" by (cases q)
  show ?case
    by (cases best; cases u)
       (simp_all add: q Cons.IH converted_Cons unitless_def)
qed


lemma best_litter_size_float_max:
  "best_litter_size Decimal entity =
     float_max (converted unitless (extract_quantity_claims Decimal entity P_LITTER))"
  by (simp add: best_litter_size_def litter_loop_max float_max_def split: list.splits)

lemma trait_aggregation_generic:
  assumes "r = float_max (converted f qs)"
  shows "((\<forall>(v, u) \<in> set qs. f v u = None) \<longrightarrow> r = None)
    \<and> ((\<exists>(v, u) \<in> set qs. f v u \<noteq> None) \<longrightarrow>
         (\<exists>c. r = Some (float_of_decimal c)
            \<and> (\<exists>(v, u) \<in> set qs. f v u = Some c)
            \<and> (\<forall>(v, u) \<in> set qs. \<forall>c'. f v u = Some c' \<longrightarrow> dec_val c' \<le> dec_val c)))"
proof (intro conjI impI)
  assume "\<forall>(v, u) \<in> set qs. f v u = None"
  then have "set (converted f qs) = {}" by (auto simp: set_converted)
  then show "r = None" by (simp add: assms float_max_None)
next
  assume "\<exists>(v, u) \<in> set qs. f v u \<noteq> None"
  then have "set (converted f qs) \<noteq> {}" by (auto simp: set_converted)
  then have "converted f qs \<noteq> []" by auto
  from float_max_Some [OF this] obtain c where c: "c \<in> set (converted f qs)"
    "float_max (converted f qs) = Some (float_of_decimal c)"
    "\<forall>c' \<in> set (converted f qs). dec_val c' \<le> dec_val c" by blast
  from c(1) have "\<exists>(v, u) \<in> set qs. f v u = Some c" by (simp add: set_converted)
  moreover from c(3) have "\<forall>(v, u) \<in> set qs. \<forall>c'. f v u = Some c' \<longrightarrow> dec_val c' \<le> dec_val c"
    by (auto simp: set_converted)
  ultimately show "\<exists>c. r = Some (float_of_decimal c)
            \<and> (\<exists>(v, u) \<in> set qs. f v u = Some c)
            \<and> (\<forall>(v, u) \<in> set qs. \<forall>c'. f v u = Some c' \<longrightarrow> dec_val c' \<le> dec_val c)"
    using c(2) assms by auto
qed

lemma mass_entity_quantities:
  "concat (map (quantity_of plain_numeral) (pick_best_statements (claims_get mass_entity P_MASS)))
    = [(Dec 5 0, Some Q_KG), (Dec 11000 0, Some Q_G)]"
  by code_simp

lemma litter_entity_quantities:
  "concat (map (quantity_of plain_numeral) (pick_best_statements (claims_get litter_entity P_LITTER)))
    = [(Dec 4 0, None), (Dec 12 0, Some Q_KG)]"
  "concat (map (quantity_of plain_numeral) (pick_best_statements (claims_get litter_entity P_MASS)))
    = []"
  by code_simp+

lemma eleven: "dec_val (dec_div (Dec 11000 0) (Dec 1000 0)) = 11"
  by (simp add: round_eval)

lemma float_eleven: "fval (float_of_decimal (dec_div (Dec 11000 0) (Dec 1000 0))) = 11"
  by (simp add: round_eval)

subsection \<open>The head of a stable sort\<close>




subsection \<open>Prefixes, suffixes, substrings; the two lion recordings\<close>









subsection \<open>Audio classification, score and choice\<close>






subsection \<open>The scan of the alternates\<close>

lemma scan_alternates_find:
  "scan_alternates unquote n filename page_images =
     (case find (\<lambda>a. lookup_raises n a \<or> acceptable unquote n a)
             (scan_candidates unquote filename page_images) of
        None \<Rightarrow> Inr None
      | Some a \<Rightarrow> if lookup_raises n a then Inl RetrievalFailure else Inr (Some (image_of n a)))"
proof (induction page_images)
  case Nil
  then show ?case by (simp add: scan_candidates_def)
next
  case (Cons a rest)
  show ?case
  proof (cases "a = filename \<or> is_map_like_image_name_or_url unquote (Some a)")
    case True
    then show ?thesis using Cons.IH by (auto simp: scan_candidates_def)
  next
    case False
    then have c: "scan_candidates unquote filename (a # rest)
        = a # scan_candidates unquote filename rest"
      by (simp add: scan_candidates_def)
    show ?thesis
    proof (cases "commons_metadata_for_filename n a")
      case (Inl e)
      then show ?thesis using False
        by (cases e) (simp add: c lookup_raises_def)
    next
      case (Inr r)
      obtain fp url lic att where r: "r = (fp, url, lic, att)" by (cases r)
      show ?thesis
        using False Inr r Cons.IH
        by (simp add: c lookup_raises_def acceptable_def image_of_def)
    qed
  qed
qed

lemma find_SomeD: "find P xs = Some x \<Longrightarrow> P x \<and> x \<in> set xs"
  by (induction xs) (auto split: if_splits)

lemma acceptable_image_url: "acceptable unquote n a \<Longrightarrow> truthy (image_url (image_of n a))"
  by (cases "commons_metadata_for_filename n a")
     (auto simp: acceptable_def image_of_def)

lemma image_try_block_map_like:
  assumes lead: "lead_image_from_enwiki n title = Inr (lead_url, Some filename)"
    and fn: "filename \<noteq> []"
    and meta: "commons_metadata_for_filename n filename = Inr (Some file_page, Some direct_url, lic, attrib)"
    and res: "direct_url \<noteq> []" "file_page \<noteq> []"
    and maplike: "is_map_like_image_name_or_url unquote (Some filename)
                  \<or> is_map_like_image_name_or_url unquote (Some direct_url)"
    and imgs: "page_image_filenames_from_enwiki n title = Inr page_images"
    and noraise: "\<forall>a \<in> set (scan_candidates unquote filename page_images). \<not> lookup_raises n a"
  shows "select_image unquote n title st =
     (case find (acceptable unquote n) (scan_candidates unquote filename page_images) of
        Some a \<Rightarrow> (Some (image_of n a), st)
      | None \<Rightarrow> (None, st\<lparr>skipped_map_only := skipped_map_only st + 1,
                            skipped_no_image := skipped_no_image st + 1\<rparr>))"
proof -
  let ?c = "scan_candidates unquote filename page_images"
  have f: "find (\<lambda>a. lookup_raises n a \<or> acceptable unquote n a) ?c = find (acceptable unquote n) ?c"
    using noraise by (intro find_cong) auto
  have nr: "\<And>a. find (acceptable unquote n) ?c = Some a \<Longrightarrow> \<not> lookup_raises n a"
    using noraise by (auto dest: find_SomeD)
  have acc: "\<And>a. find (acceptable unquote n) ?c = Some a \<Longrightarrow> truthy (image_url (image_of n a))"
    by (auto dest: find_SomeD intro: acceptable_image_url)
  have scan: "scan_alternates unquote n filename page_images =
     (case find (acceptable unquote n) ?c of None \<Rightarrow> Inr None | Some a \<Rightarrow> Inr (Some (image_of n a)))"
    using nr by (simp add: scan_alternates_find f split: option.splits)
  show ?thesis
  proof (cases "find (acceptable unquote n) ?c")
    case None
    then show ?thesis
      using lead fn meta res maplike imgs scan
      by (simp add: select_image_def image_try_block_def truthy_def or_empty_def no_image_def)
  next
    case (Some a)
    then show ?thesis
      using lead fn meta res maplike imgs scan acc [OF Some]
      by (simp add: select_image_def image_try_block_def truthy_def or_empty_def)
  qed
qed

subsection \<open>Evaluating the number formats\<close>



subsection \<open>Parsing and counting the legacy fields\<close>


lemma flt_val: "flt a b \<longleftrightarrow> fval a < fval b"
proof (cases a; cases b)
  fix m1 e1 m2 e2
  assume a: "a = Flt m1 e1" and b: "b = Flt m2 e2"
  define k where "k = min e1 e2"
  have k: "k \<le> e1" "k \<le> e2" by (simp_all add: k_def)
  have p: "(0::rat) < 2 powi k" by simp
  have "fval a = of_int (m1 * 2 ^ nat (e1 - k)) * 2 powi k"
    using powi_shift [OF k(1), of 2 m1] by (simp add: a)
  moreover have "fval b = of_int (m2 * 2 ^ nat (e2 - k)) * 2 powi k"
    using powi_shift [OF k(2), of 2 m2] by (simp add: b)
  ultimately have "fval a < fval b \<longleftrightarrow>
      (of_int (m1 * 2 ^ nat (e1 - k)) :: rat) < of_int (m2 * 2 ^ nat (e2 - k))"
    using p by (simp only: mult_less_cancel_right_pos)
  also have "\<dots> \<longleftrightarrow> m1 * 2 ^ nat (e1 - k) < m2 * 2 ^ nat (e2 - k)"
    by (simp only: of_int_less_iff)
  finally show ?thesis by (simp add: a b k_def Let_def)
qed


lemma convert_trait_None: "convert_trait c None = None"
  by (simp add: convert_trait_def)

lemma convert_trait_Some:
  "c \<in> set source_columns \<Longrightarrow> convert_trait c (Some v) \<noteq> None"
  by (auto simp: source_columns_def PANTHERIA_TO_TARGET_def convert_trait_def Let_def)

lemma convert_trait_filled:
  "c \<in> set source_columns \<Longrightarrow> convert_trait c v \<noteq> None \<longleftrightarrow> v \<noteq> None"
  using convert_trait_Some [of c] by (cases v) (auto simp: convert_trait_None)



lemma filled_count_parse:
  "filled_count float prow =
     length (filter (\<lambda>c. parse_pantheria_number float (prow c) \<noteq> None) source_columns)"
  unfolding filled_count_def
  by (rule arg_cong [where f = length], rule filter_cong [OF refl]) (rule convert_trait_filled)

subsection \<open>The rows that are kept\<close>













subsection \<open>Two pages with a map as lead image\<close>

lemma map_tokens:
  "is_map_like_image_name_or_url (\<lambda>s. s) (Some ''Lion_distribution_map.png'')"
  "\<not> is_map_like_image_name_or_url (\<lambda>s. s) (Some ''Lion_waiting.jpg'')"
  "\<not> is_map_like_image_name_or_url (\<lambda>s. s) (Some ''roadmap.jpg'')"
  "\<not> is_map_like_image_name_or_url (\<lambda>s. s)
      (Some ''https://upload.wikimedia.org/wikipedia/commons/7/73/Lion_waiting.jpg'')"
  by code_simp+

lemma image_fallback_alternate:
  "select_image (\<lambda>s. s) working_net ''Lion'' \<lparr>skipped_no_image = 0, skipped_map_only = 0\<rparr>
     = (Some \<lparr>image_url =
                Some ''https://upload.wikimedia.org/wikipedia/commons/7/73/Lion_waiting.jpg'',
              image_file_page = Some ''https://commons.wikimedia.org/wiki/File:Lion_waiting.jpg'',
              image_license = Some ''CC BY 2.0'',
              image_attribution = Some ''B / CC BY 2.0''\<rparr>,
        \<lparr>skipped_no_image = 0, skipped_map_only = 0\<rparr>)"
  by (simp add: map_tokens select_image_def image_try_block_def failing_net_def working_net_def
      map_meta_def photo_meta_def truthy_def or_empty_def)

subsection \<open>The rows of the sound column\<close>



subsection \<open>Digit strings\<close>

lemma digit_char_code: "d < 10 \<Longrightarrow> (of_char (digit_char d) :: nat) = 48 + d"
proof -
  assume "d < 10"
  then have "d = 0 \<or> d = 1 \<or> d = 2 \<or> d = 3 \<or> d = 4 \<or> d = 5 \<or> d = 6 \<or> d = 7
    \<or> d = 8 \<or> d = 9" by presburger
  then show ?thesis by (elim disjE) (simp_all add: digit_char_def)
qed

lemma digit_char_digit: "d < 10 \<Longrightarrow> is_digit (digit_char d)"
  by (simp add: is_digit_def digit_char_code)

lemma digit_char_val: "d < 10 \<Longrightarrow> digit_val (digit_char d) = d"
  by (simp add: digit_val_def digit_char_code)

lemma is_digit_not_point: "is_digit c \<Longrightarrow> c \<noteq> CHR ''.'' \<and> c \<noteq> CHR ''-'' \<and> c \<noteq> CHR ''+''"
  by (auto simp: is_digit_def)

lemma digits_val_snoc: "digits_val (xs @ [c]) = 10 * digits_val xs + digit_val c"
  by (simp add: digits_val_def)

lemma digits_val_append: "digits_val (xs @ ys) = digits_val xs * 10 ^ length ys + digits_val ys"
proof (induction ys rule: rev_induct)
  case Nil
  then show ?case by (simp add: digits_val_def)
next
  case (snoc y ys)
  have "digits_val (xs @ ys @ [y]) = 10 * digits_val (xs @ ys) + digit_val y"
    using digits_val_snoc [of "xs @ ys" y] by simp
  also have "\<dots> = 10 * (digits_val xs * 10 ^ length ys + digits_val ys) + digit_val y"
    by (simp add: snoc.IH)
  also have "\<dots> = digits_val xs * 10 ^ length (ys @ [y]) + digits_val (ys @ [y])"
    by (simp add: digits_val_snoc algebra_simps)
  finally show ?case .
qed

lemma digits_val_zeros: "digits_val (replicate k CHR ''0'') = 0"
proof (induction k)
  case 0
  then show ?case by (simp add: digits_val_def)
next
  case (Suc k)
  have "replicate (Suc k) CHR ''0'' = replicate k CHR ''0'' @ [CHR ''0'']"
    by (simp add: replicate_append_same)
  then have "digits_val (replicate (Suc k) CHR ''0'')
      = 10 * digits_val (replicate k CHR ''0'') + digit_val CHR ''0''"
    by (simp only: digits_val_snoc)
  then show ?case by (simp add: Suc.IH digit_val_def)
qed

lemma nat_digits_nonempty: "nat_digits n \<noteq> []"
  by (subst nat_digits.simps) simp

lemma nat_digits_digits: "list_all is_digit (nat_digits n)"
proof (induction n rule: nat_digits.induct)
  case (1 n)
  show ?case
  proof (cases "n < 10")
    case True
    then show ?thesis by (subst nat_digits.simps) (simp add: digit_char_digit)
  next
    case False
    then show ?thesis using 1 by (subst nat_digits.simps) (simp add: digit_char_digit)
  qed
qed

lemma nat_digits_val: "digits_val (nat_digits n) = n"
proof (induction n rule: nat_digits.induct)
  case (1 n)
  show ?case
  proof (cases "n < 10")
    case True
    then show ?thesis
      by (subst nat_digits.simps) (simp add: digits_val_def digit_char_val)
  next
    case False
    then show ?thesis using 1
      by (subst nat_digits.simps) (simp add: digits_val_snoc digit_char_val)
  qed
qed

lemma nat_digits_length: "n < 10 ^ d \<Longrightarrow> 0 < d \<Longrightarrow> length (nat_digits n) \<le> d"
proof (induction n arbitrary: d rule: nat_digits.induct)
  case (1 n)
  show ?case
  proof (cases "n < 10")
    case True
    then show ?thesis using "1.prems" by (subst nat_digits.simps) simp
  next
    case False
    obtain d' where d: "d = Suc d'" using "1.prems"(2) by (cases d) auto
    have "n div 10 < 10 ^ d'" using "1.prems"(1) d by (simp add: less_mult_imp_div_less)
    moreover have "0 < d'"
    proof (rule ccontr)
      assume "\<not> 0 < d'"
      then have "d = 1" using d by simp
      then show False using "1.prems"(1) False by simp
    qed
    ultimately have "length (nat_digits (n div 10)) \<le> d'" using "1.IH" False by simp
    then show ?thesis using False d by (subst nat_digits.simps) simp
  qed
qed

section \<open>Rank-preference selection\<close>

text \<open>
  C1.  \<open>pick_best_statements\<close> returns exactly the statements ranked "preferred" when
  there is one; otherwise exactly those ranked "normal" when there is one; otherwise
  every statement whose rank is not "deprecated".  A list of deprecated statements
  only gives the empty list.  The selected statements keep their input order.
\<close>

theorem pick_best_statements_policy:
  "pick_best_statements sts =
     (if \<exists>s \<in> set sts. rank s = Some ''preferred''
        then filter (\<lambda>s. rank s = Some ''preferred'') sts
      else if \<exists>s \<in> set sts. rank s = Some ''normal''
        then filter (\<lambda>s. rank s = Some ''normal'') sts
      else filter (\<lambda>s. rank s \<noteq> Some ''deprecated'') sts)
   \<and> ((\<forall>s \<in> set sts. rank s = Some ''deprecated'') \<longrightarrow> pick_best_statements sts = [])"
proof -
  have e: "\<And>P. (filter P sts \<noteq> []) = (\<exists>s \<in> set sts. P s)"
    by (simp add: filter_empty_conv)
  have sel: "pick_best_statements sts =
     (if \<exists>s \<in> set sts. rank s = Some ''preferred''
        then filter (\<lambda>s. rank s = Some ''preferred'') sts
      else if \<exists>s \<in> set sts. rank s = Some ''normal''
        then filter (\<lambda>s. rank s = Some ''normal'') sts
      else filter (\<lambda>s. rank s \<noteq> Some ''deprecated'') sts)"
    unfolding pick_best_statements_def Let_def e by simp
  have dep: "(\<forall>s \<in> set sts. rank s = Some ''deprecated'') \<longrightarrow> pick_best_statements sts = []"
  proof
    assume a: "\<forall>s \<in> set sts. rank s = Some ''deprecated''"
    then have "filter (\<lambda>s. rank s = Some ''preferred'') sts = []"
      and "filter (\<lambda>s. rank s = Some ''normal'') sts = []"
      and "filter (\<lambda>s. rank s \<noteq> Some ''deprecated'') sts = []"
      by (auto simp: filter_empty_conv)
    then show "pick_best_statements sts = []"
      by (simp add: pick_best_statements_def)
  qed
  from sel dep show ?thesis by blast
qed

theorem pick_best_statements_policy_witness:
  "pick_best_statements
     [\<lparr>rank = Some ''normal'', snak = NoValue\<rparr>,
      \<lparr>rank = Some ''preferred'', snak = TextValue ''a''\<rparr>,
      \<lparr>rank = Some ''deprecated'', snak = NoValue\<rparr>]
     = [\<lparr>rank = Some ''preferred'', snak = TextValue ''a''\<rparr>]
   \<and> pick_best_statements
     [\<lparr>rank = Some ''normal'', snak = NoValue\<rparr>,
      \<lparr>rank = Some ''deprecated'', snak = NoValue\<rparr>]
     = [\<lparr>rank = Some ''normal'', snak = NoValue\<rparr>]
   \<and> pick_best_statements [\<lparr>rank = Some ''deprecated'', snak = NoValue\<rparr>] = []"
  using pick_best_statements_policy
      [of "[\<lparr>rank = Some ''normal'', snak = NoValue\<rparr>,
            \<lparr>rank = Some ''preferred'', snak = TextValue ''a''\<rparr>,
            \<lparr>rank = Some ''deprecated'', snak = NoValue\<rparr>]"]
    pick_best_statements_policy
      [of "[\<lparr>rank = Some ''normal'', snak = NoValue\<rparr>,
            \<lparr>rank = Some ''deprecated'', snak = NoValue\<rparr>]"]
    pick_best_statements_policy
      [of "[\<lparr>rank = Some ''deprecated'', snak = NoValue\<rparr>]"]
  by simp

section \<open>Name normalisation\<close>

text \<open>
  C9.  Name normalisation is idempotent: normalising the result of \<open>normalize_name\<close>
  gives that result again, for every input (a string, or \<open>None\<close>, which the function
  reads as the empty string).  The functions of FillDataFromPantheria.py and of
  AddPopulationGrpSizeFromPantheria.py are the same.
\<close>

theorem normalize_name_idempotent:
  "normalize_name (Some (normalize_name x)) = normalize_name x"
  unfolding normalize_name_def [of x]
  by (rule normalize_join) (auto simp: split_ws_words split_lower_fixed)

theorem normalize_name_idempotent_witness:
  "normalize_name (Some (normalize_name (Some ''  Panthera   LEO  persica '')))
     = ''panthera leo persica''"
proof -
  have "normalize_name (Some ''  Panthera   LEO  persica '') = ''panthera leo persica''"
    by code_simp
  with normalize_name_idempotent [of "Some ''  Panthera   LEO  persica ''"]
  show ?thesis by simp
qed

section \<open>Cross-source matching\<close>

text \<open>
  C4.  The match of a subject row looks its normalised scientific name up in the legacy
  index and, on a miss, looks the binomial reduction of that name up; the result depends
  on the index at these two keys only.  The binomial reduction of a name with two or more
  whitespace-delimited tokens is the first two joined by one space, and of a shorter name
  the name itself.  The index built from the legacy rows maps a key to the first row
  whose normalised binomial is that key, and never holds the empty key.
\<close>

theorem species_matching:
  "match_pantheria index mammal_row =
     (case index (normalize_name (mammal_row ''scientific_name'')) of
        Some r \<Rightarrow> Some r
      | None \<Rightarrow> index (to_binomial (normalize_name (mammal_row ''scientific_name''))))
   \<and> (\<forall>index'.
        index' (normalize_name (mammal_row ''scientific_name''))
          = index (normalize_name (mammal_row ''scientific_name'')) \<and>
        index' (to_binomial (normalize_name (mammal_row ''scientific_name'')))
          = index (to_binomial (normalize_name (mammal_row ''scientific_name'')))
        \<longrightarrow> match_pantheria index' mammal_row = match_pantheria index mammal_row)
   \<and> (2 \<le> length (split_ws s) \<longrightarrow> to_binomial s = split_ws s ! 0 @ '' '' @ split_ws s ! 1)
   \<and> (length (split_ws s) < 2 \<longrightarrow> to_binomial s = s)
   \<and> load_pantheria_index rows k =
       (if k = [] then None
        else find (\<lambda>r. normalize_name (r ''MSW05_Binomial'') = k) rows)"
proof -
  have a: "match_pantheria index mammal_row =
     (case index (normalize_name (mammal_row ''scientific_name'')) of
        Some r \<Rightarrow> Some r
      | None \<Rightarrow> index (to_binomial (normalize_name (mammal_row ''scientific_name''))))"
    by (simp add: match_pantheria_def Let_def)
  have b: "load_pantheria_index rows k =
       (if k = [] then None
        else find (\<lambda>r. normalize_name (r ''MSW05_Binomial'') = k) rows)"
    by (simp add: load_pantheria_index_def index_rows_lookup)
  from a b show ?thesis
    using match_pantheria_keys to_binomial_two to_binomial_short by blast
qed

lemma legacy_keys:
  "normalize_name (Some ''Panthera  leo'') = ''panthera leo''"
  "normalize_name (Some ''panthera leo'') = ''panthera leo''"
  "normalize_name (Some '' Panthera leo  persica'') = ''panthera leo persica''"
  "to_binomial ''panthera leo persica'' = ''panthera leo''"
  "split_ws ''panthera leo persica'' = [''panthera'', ''leo'', ''persica'']"
  "split_ws ''panthera'' = [''panthera'']"
  by code_simp+

theorem species_matching_witness:
  "match_pantheria (load_pantheria_index [legacy_row_a, legacy_row_b]) subject_row
     = Some legacy_row_a
   \<and> load_pantheria_index [legacy_row_a, legacy_row_b] ''panthera leo persica'' = None
   \<and> load_pantheria_index [legacy_row_a, legacy_row_b] ''panthera leo'' = Some legacy_row_a
   \<and> load_pantheria_index [legacy_row_a, legacy_row_b] [] = None
   \<and> to_binomial ''panthera leo persica'' = ''panthera leo''
   \<and> to_binomial ''panthera'' = ''panthera''"
proof -
  let ?idx = "load_pantheria_index [legacy_row_a, legacy_row_b]"
  have k: "normalize_name (legacy_row_a ''MSW05_Binomial'') = ''panthera leo''"
    "normalize_name (legacy_row_b ''MSW05_Binomial'') = ''panthera leo''"
    "normalize_name (subject_row ''scientific_name'') = ''panthera leo persica''"
    by (simp_all add: legacy_row_a_def legacy_row_b_def subject_row_def legacy_keys)
  have i1: "?idx ''panthera leo persica'' = None"
    using species_matching [where rows = "[legacy_row_a, legacy_row_b]"
        and k = "''panthera leo persica''"]
    by (simp add: k)
  have i2: "?idx ''panthera leo'' = Some legacy_row_a"
    using species_matching [where rows = "[legacy_row_a, legacy_row_b]" and k = "''panthera leo''"]
    by (simp add: k)
  have i3: "?idx [] = None"
    using species_matching [where rows = "[legacy_row_a, legacy_row_b]" and k = "[]"]
    by simp
  have m: "match_pantheria ?idx subject_row = Some legacy_row_a"
    using species_matching [where index = ?idx and mammal_row = subject_row]
    by (simp add: k i1 i2 legacy_keys)
  have b1: "to_binomial ''panthera leo persica'' = ''panthera leo''"
    using species_matching [where s = "''panthera leo persica''"]
    by (simp add: legacy_keys)
  have b2: "to_binomial ''panthera'' = ''panthera''"
    using species_matching [where s = "''panthera''"]
    by (simp add: legacy_keys)
  from m i1 i2 i3 b1 b2 show ?thesis by simp
qed

section \<open>Unit conversion\<close>

text \<open>
  C3.  Each converter returns a value for the unit identifiers it recognises and \<open>None\<close>
  for every other identifier (also for no identifier); it never raises.  Mass to
  kilograms: the value itself for kg, divided by 1000 for grams, by 1000000 for
  milligrams, multiplied by 1000 for tonnes and by 0.45359237 for pounds.  Time to days:
  the value itself for days, times 7 for weeks, 30.4375 for months, 365.25 for years.
  Time to years: the value itself for years, otherwise the days divided by 365.25.
  Speed to mph: the value itself for mph, times 0.621371192237334 for km/h,
  2.2369362920544 for m/s, 1.15077944802354 for knots.  Each product and quotient is the
  exact one rounded in the default context of \<open>Decimal\<close> (\<open>context_rounded\<close>): exact
  whenever 28 digits hold it, and otherwise within half a unit of the 28th digit.
  1000 g is exactly 1 kg, 1 year exactly 365.25 days, 1 knot exactly 1.15077944802354
  mph, 5 weeks exactly 35 days, 2 lb exactly 0.90718474 kg, 1461 days exactly 4 years.
\<close>

theorem unit_converters:
  "(convert_mass_to_kg v (Some Q_KG) = Some v
   \<and> (\<exists>r. convert_mass_to_kg v (Some Q_G) = Some r \<and> context_rounded (dec_val v / 1000) r)
   \<and> (\<exists>r. convert_mass_to_kg v (Some Q_MG) = Some r
          \<and> context_rounded (dec_val v / 1000000) r)
   \<and> (\<exists>r. convert_mass_to_kg v (Some Q_TONNE) = Some r
          \<and> context_rounded (dec_val v * 1000) r)
   \<and> (\<exists>r. convert_mass_to_kg v (Some Q_LB) = Some r
          \<and> context_rounded (dec_val v * (45359237 / 10 ^ 8)) r)
   \<and> (u \<notin> {Some Q_KG, Some Q_G, Some Q_MG, Some Q_TONNE, Some Q_LB}
        \<longrightarrow> convert_mass_to_kg v u = None))
   \<and> (convert_time_to_days v (Some Q_DAY) = Some v
   \<and> (\<exists>r. convert_time_to_days v (Some Q_WEEK) = Some r \<and> context_rounded (dec_val v * 7) r)
   \<and> (\<exists>r. convert_time_to_days v (Some Q_MONTH) = Some r
          \<and> context_rounded (dec_val v * (304375 / 10 ^ 4)) r)
   \<and> (\<exists>r. convert_time_to_days v (Some Q_YEAR) = Some r
          \<and> context_rounded (dec_val v * (36525 / 10 ^ 2)) r)
   \<and> (u \<notin> {Some Q_DAY, Some Q_WEEK, Some Q_MONTH, Some Q_YEAR}
        \<longrightarrow> convert_time_to_days v u = None \<and> convert_time_to_years v u = None))
   \<and> (convert_time_to_years v (Some Q_YEAR) = Some v
   \<and> (u \<in> {Some Q_DAY, Some Q_WEEK, Some Q_MONTH} \<longrightarrow>
        (\<exists>days r. convert_time_to_days v u = Some days \<and> convert_time_to_years v u = Some r
           \<and> context_rounded (dec_val days / (36525 / 10 ^ 2)) r)))
   \<and> (convert_speed_to_mph v (Some Q_MPH) = Some v
   \<and> (\<exists>r. convert_speed_to_mph v (Some Q_KMH) = Some r
          \<and> context_rounded (dec_val v * (621371192237334 / 10 ^ 15)) r)
   \<and> (\<exists>r. convert_speed_to_mph v (Some Q_MPS) = Some r
          \<and> context_rounded (dec_val v * (22369362920544 / 10 ^ 13)) r)
   \<and> (\<exists>r. convert_speed_to_mph v (Some Q_KNOT) = Some r
          \<and> context_rounded (dec_val v * (115077944802354 / 10 ^ 14)) r)
   \<and> (u \<notin> {Some Q_MPH, Some Q_KMH, Some Q_MPS, Some Q_KNOT}
        \<longrightarrow> convert_speed_to_mph v u = None))
   \<and> (map_option dec_val (convert_mass_to_kg (Dec 1000 0) (Some Q_G)) = Some 1
   \<and> map_option dec_val (convert_time_to_days (Dec 1 0) (Some Q_YEAR)) = Some (36525 / 100)
   \<and> map_option dec_val (convert_speed_to_mph (Dec 1 0) (Some Q_KNOT))
        = Some (115077944802354 / 10 ^ 14)
   \<and> map_option dec_val (convert_time_to_days (Dec 5 0) (Some Q_WEEK)) = Some 35
   \<and> map_option dec_val (convert_mass_to_kg (Dec 2 0) (Some Q_LB)) = Some (90718474 / 10 ^ 8)
   \<and> map_option dec_val (convert_time_to_years (Dec 1461 0) (Some Q_DAY)) = Some 4)"
proof -
  note mul = dec_mul_rounded [where v = v]
  note dv = dec_div_rounded [where v = v]
  have g: "context_rounded (dec_val v / 1000) (dec_div v (Dec 1000 0))"
    by (rule dv) (simp_all add: const_vals)
  have mg: "context_rounded (dec_val v / 1000000) (dec_div v (Dec 1000000 0))"
    by (rule dv) (simp_all add: const_vals)
  have t: "context_rounded (dec_val v * 1000) (dec_mul v (Dec 1000 0))"
    by (rule mul) (simp add: const_vals)
  have lb: "context_rounded (dec_val v * (45359237 / 10 ^ 8)) (dec_mul v LB_TO_KG)"
    unfolding LB_TO_KG_def by (rule mul) (rule const_vals)
  have mass: "convert_mass_to_kg v (Some Q_KG) = Some v
   \<and> (\<exists>r. convert_mass_to_kg v (Some Q_G) = Some r \<and> context_rounded (dec_val v / 1000) r)
   \<and> (\<exists>r. convert_mass_to_kg v (Some Q_MG) = Some r
          \<and> context_rounded (dec_val v / 1000000) r)
   \<and> (\<exists>r. convert_mass_to_kg v (Some Q_TONNE) = Some r
          \<and> context_rounded (dec_val v * 1000) r)
   \<and> (\<exists>r. convert_mass_to_kg v (Some Q_LB) = Some r
          \<and> context_rounded (dec_val v * (45359237 / 10 ^ 8)) r)
   \<and> (u \<notin> {Some Q_KG, Some Q_G, Some Q_MG, Some Q_TONNE, Some Q_LB}
        \<longrightarrow> convert_mass_to_kg v u = None)"
    using g mg t lb by (simp add: convert_mass_to_kg_def unit_defs)
  have w: "context_rounded (dec_val v * 7) (dec_mul v (Dec 7 0))"
    by (rule mul) (simp add: const_vals)
  have mo: "context_rounded (dec_val v * (304375 / 10 ^ 4)) (dec_mul v (Dec 304375 (- 4)))"
    by (rule mul) (rule const_vals)
  have y: "context_rounded (dec_val v * (36525 / 10 ^ 2)) (dec_mul v (Dec 36525 (- 2)))"
    by (rule mul) (rule const_vals)
  have days: "convert_time_to_days v (Some Q_DAY) = Some v
   \<and> (\<exists>r. convert_time_to_days v (Some Q_WEEK) = Some r \<and> context_rounded (dec_val v * 7) r)
   \<and> (\<exists>r. convert_time_to_days v (Some Q_MONTH) = Some r
          \<and> context_rounded (dec_val v * (304375 / 10 ^ 4)) r)
   \<and> (\<exists>r. convert_time_to_days v (Some Q_YEAR) = Some r
          \<and> context_rounded (dec_val v * (36525 / 10 ^ 2)) r)
   \<and> (u \<notin> {Some Q_DAY, Some Q_WEEK, Some Q_MONTH, Some Q_YEAR}
        \<longrightarrow> convert_time_to_days v u = None \<and> convert_time_to_years v u = None)"
    using w mo y by (simp add: convert_time_to_days_def convert_time_to_years_def unit_defs)
  have yd: "context_rounded (dec_val days / (36525 / 10 ^ 2)) (dec_div days (Dec 36525 (- 2)))"
    for days
    by (rule dec_div_rounded) (simp_all add: const_vals)
  have years: "convert_time_to_years v (Some Q_YEAR) = Some v
   \<and> (u \<in> {Some Q_DAY, Some Q_WEEK, Some Q_MONTH} \<longrightarrow>
        (\<exists>days r. convert_time_to_days v u = Some days \<and> convert_time_to_years v u = Some r
           \<and> context_rounded (dec_val days / (36525 / 10 ^ 2)) r))"
    using yd by (auto simp add: convert_time_to_years_def convert_time_to_days_def unit_defs)
  have kmh: "context_rounded (dec_val v * (621371192237334 / 10 ^ 15)) (dec_mul v KMH_TO_MPH)"
    unfolding KMH_TO_MPH_def by (rule mul) (rule const_vals)
  have mps: "context_rounded (dec_val v * (22369362920544 / 10 ^ 13)) (dec_mul v MPS_TO_MPH)"
    unfolding MPS_TO_MPH_def by (rule mul) (rule const_vals)
  have kn: "context_rounded (dec_val v * (115077944802354 / 10 ^ 14)) (dec_mul v KNOT_TO_MPH)"
    unfolding KNOT_TO_MPH_def by (rule mul) (rule const_vals)
  have speed: "convert_speed_to_mph v (Some Q_MPH) = Some v
   \<and> (\<exists>r. convert_speed_to_mph v (Some Q_KMH) = Some r
          \<and> context_rounded (dec_val v * (621371192237334 / 10 ^ 15)) r)
   \<and> (\<exists>r. convert_speed_to_mph v (Some Q_MPS) = Some r
          \<and> context_rounded (dec_val v * (22369362920544 / 10 ^ 13)) r)
   \<and> (\<exists>r. convert_speed_to_mph v (Some Q_KNOT) = Some r
          \<and> context_rounded (dec_val v * (115077944802354 / 10 ^ 14)) r)
   \<and> (u \<notin> {Some Q_MPH, Some Q_KMH, Some Q_MPS, Some Q_KNOT}
        \<longrightarrow> convert_speed_to_mph v u = None)"
    using kmh mps kn by (simp add: convert_speed_to_mph_def unit_defs)
  have ex: "map_option dec_val (convert_mass_to_kg (Dec 1000 0) (Some Q_G)) = Some 1
   \<and> map_option dec_val (convert_time_to_days (Dec 1 0) (Some Q_YEAR)) = Some (36525 / 100)
   \<and> map_option dec_val (convert_speed_to_mph (Dec 1 0) (Some Q_KNOT))
        = Some (115077944802354 / 10 ^ 14)
   \<and> map_option dec_val (convert_time_to_days (Dec 5 0) (Some Q_WEEK)) = Some 35
   \<and> map_option dec_val (convert_mass_to_kg (Dec 2 0) (Some Q_LB)) = Some (90718474 / 10 ^ 8)
   \<and> map_option dec_val (convert_time_to_years (Dec 1461 0) (Some Q_DAY)) = Some 4"
    by (rule conjI [OF ex_g conjI [OF ex_year conjI [OF ex_knot conjI [OF ex_week
          conjI [OF ex_lb ex_days]]]]])
  show ?thesis
    by (rule conjI [OF mass conjI [OF days conjI [OF years conjI [OF speed ex]]]])
qed

theorem unit_converters_witness:
  "Some ''Q42'' \<notin> {Some Q_KG, Some Q_G, Some Q_MG, Some Q_TONNE, Some Q_LB}
   \<and> convert_mass_to_kg (Dec 5 0) (Some ''Q42'') = None
   \<and> None \<notin> {Some Q_DAY, Some Q_WEEK, Some Q_MONTH, Some Q_YEAR}
   \<and> convert_time_to_days (Dec 5 0) None = None
   \<and> convert_time_to_years (Dec 5 0) None = None
   \<and> Some Q_KG \<notin> {Some Q_MPH, Some Q_KMH, Some Q_MPS, Some Q_KNOT}
   \<and> convert_speed_to_mph (Dec 5 0) (Some Q_KG) = None
   \<and> Some Q_WEEK \<in> {Some Q_DAY, Some Q_WEEK, Some Q_MONTH}
   \<and> dec_val (Dec 5 0) * 7 = of_int 35 * 10 powi 0 \<and> \<bar>35 :: int\<bar> < 10 ^ 28 \<and> Etiny \<le> 0
   \<and> map_option dec_val (convert_time_to_days (Dec 5 0) (Some Q_WEEK)) = Some 35
   \<and> (\<exists>days r. convert_time_to_days (Dec 5 0) (Some Q_WEEK) = Some days
         \<and> convert_time_to_years (Dec 5 0) (Some Q_WEEK) = Some r
         \<and> context_rounded (dec_val days / (36525 / 10 ^ 2)) r)"
proof -
  have a: "Some ''Q42'' \<notin> {Some Q_KG, Some Q_G, Some Q_MG, Some Q_TONNE, Some Q_LB}"
    by (simp add: unit_defs)
  have b: "None \<notin> {Some Q_DAY, Some Q_WEEK, Some Q_MONTH, Some Q_YEAR}" by simp
  have c: "Some Q_KG \<notin> {Some Q_MPH, Some Q_KMH, Some Q_MPS, Some Q_KNOT}"
    by (simp add: unit_defs)
  have d: "Some Q_WEEK \<in> {Some Q_DAY, Some Q_WEEK, Some Q_MONTH}" by simp
  have e: "dec_val (Dec 5 0) * 7 = of_int 35 * 10 powi 0 \<and> \<bar>35 :: int\<bar> < 10 ^ 28 \<and> Etiny \<le> 0"
    by (simp add: Etiny_def)
  have m: "convert_mass_to_kg (Dec 5 0) (Some ''Q42'') = None"
    using unit_converters [where v = "Dec 5 0" and u = "Some ''Q42''",
        THEN conjunct1, THEN conjunct2, THEN conjunct2, THEN conjunct2, THEN conjunct2,
        THEN conjunct2, THEN mp, OF a] .
  have t: "convert_time_to_days (Dec 5 0) None = None \<and> convert_time_to_years (Dec 5 0) None = None"
    using unit_converters [where v = "Dec 5 0" and u = None,
        THEN conjunct2, THEN conjunct1, THEN conjunct2, THEN conjunct2, THEN conjunct2,
        THEN conjunct2, THEN mp, OF b] .
  have s: "convert_speed_to_mph (Dec 5 0) (Some Q_KG) = None"
    using unit_converters [where v = "Dec 5 0" and u = "Some Q_KG",
        THEN conjunct2, THEN conjunct2, THEN conjunct2, THEN conjunct1, THEN conjunct2,
        THEN conjunct2, THEN conjunct2, THEN conjunct2, THEN mp, OF c] .
  obtain r where r: "convert_time_to_days (Dec 5 0) (Some Q_WEEK) = Some r"
      "context_rounded (dec_val (Dec 5 0) * 7) r"
    using unit_converters [where v = "Dec 5 0" and u = None,
        THEN conjunct2, THEN conjunct1, THEN conjunct2, THEN conjunct1] by blast
  from r(2) have "\<forall>k j. dec_val (Dec 5 0) * 7 = of_int k * 10 powi j \<and> \<bar>k\<bar> < 10 ^ 28 \<and> Etiny \<le> j
      \<longrightarrow> dec_val r = dec_val (Dec 5 0) * 7"
    unfolding context_rounded_def by (rule conjunct2)
  then have "dec_val (Dec 5 0) * 7 = of_int 35 * 10 powi 0 \<and> \<bar>35 :: int\<bar> < 10 ^ 28 \<and> Etiny \<le> 0
      \<longrightarrow> dec_val r = dec_val (Dec 5 0) * 7"
    by (elim allE)
  from this [THEN mp, OF e] have "dec_val r = 35" by simp
  then have w: "map_option dec_val (convert_time_to_days (Dec 5 0) (Some Q_WEEK)) = Some 35"
    by (simp add: r(1))
  have y: "\<exists>days r. convert_time_to_days (Dec 5 0) (Some Q_WEEK) = Some days
         \<and> convert_time_to_years (Dec 5 0) (Some Q_WEEK) = Some r
         \<and> context_rounded (dec_val days / (36525 / 10 ^ 2)) r"
    using unit_converters [where v = "Dec 5 0" and u = "Some Q_WEEK",
        THEN conjunct2, THEN conjunct2, THEN conjunct1, THEN conjunct2, THEN mp, OF d] .
  show ?thesis
    by (rule conjI [OF a conjI [OF m conjI [OF b conjI [OF conjunct1 [OF t]
          conjI [OF conjunct2 [OF t] conjI [OF c conjI [OF s conjI [OF d
          conjI [OF conjunct1 [OF e] conjI [OF conjunct1 [OF conjunct2 [OF e]]
          conjI [OF conjunct2 [OF conjunct2 [OF e]] conjI [OF w y]]]]]]]]]]]])
qed

section \<open>Trait aggregation\<close>

text \<open>
  C2.  For each of the traits mass, lifespan, gestation, speed and litter size, let \<open>qs\<close>
  be the quantities of the authoritative statements of the trait's property.  When no
  quantity converts, the trait is absent (\<open>None\<close>, not zero).  When one converts, the
  aggregated value is the float of a converted value that is greatest among all the
  converted values.  For litter size the values that count are exactly those of the
  quantities without a unit identifier; a quantity with a unit identifier contributes
  nothing.
\<close>

theorem trait_aggregation:
  assumes "(best, f, prop) \<in>
     {(best_mass_kg, convert_mass_to_kg, P_MASS),
      (best_lifespan_yr, convert_time_to_years, P_LIFESPAN),
      (best_gestation_days, convert_time_to_days, P_GESTATION),
      (best_speed_mph, convert_speed_to_mph, P_SPEED),
      (best_litter_size, unitless, P_LITTER)}"
    and "qs = concat (map (quantity_of Decimal) (pick_best_statements (claims_get entity prop)))"
  shows "((\<forall>(v, u) \<in> set qs. f v u = None) \<longrightarrow> best Decimal entity = None)
    \<and> ((\<exists>(v, u) \<in> set qs. f v u \<noteq> None) \<longrightarrow>
         (\<exists>c. best Decimal entity = Some (float_of_decimal c)
            \<and> (\<exists>(v, u) \<in> set qs. f v u = Some c)
            \<and> (\<forall>(v, u) \<in> set qs. \<forall>c'. f v u = Some c' \<longrightarrow> dec_val c' \<le> dec_val c)))
    \<and> (unitless v u = Some c \<longleftrightarrow> u = None \<and> c = v)"
proof -
  have qs: "qs = extract_quantity_claims Decimal entity prop"
    by (simp add: assms(2) extract_quantity_claims_def)
  from assms(1) have "best Decimal entity = float_max (converted f qs)"
    unfolding qs
    by (auto simp: best_mass_kg_def best_lifespan_yr_def best_gestation_days_def
        best_speed_mph_def best_litter_size_float_max)
  from trait_aggregation_generic [OF this]
  show ?thesis by (auto simp: unitless_def)
qed

theorem trait_aggregation_witness:
  "(\<exists>c. best_mass_kg plain_numeral mass_entity = Some (float_of_decimal c) \<and> dec_val c = 11)
   \<and> map_option fval (best_mass_kg plain_numeral mass_entity) = Some 11
   \<and> best_mass_kg plain_numeral litter_entity = None
   \<and> best_litter_size plain_numeral litter_entity = Some (float_of_decimal (Dec 4 0))"
proof -
  let ?qs = "[(Dec 5 0, Some Q_KG), (Dec 11000 0, Some Q_G)]"
  let ?g = "dec_div (Dec 11000 0) (Dec 1000 0)"
  have conv: "convert_mass_to_kg (Dec 5 0) (Some Q_KG) = Some (Dec 5 0)"
    "convert_mass_to_kg (Dec 11000 0) (Some Q_G) = Some ?g"
    by (simp_all add: convert_mass_to_kg_def unit_defs del: dec_div.simps)
  have mem: "(best_mass_kg, convert_mass_to_kg, P_MASS) \<in>
     {(best_mass_kg, convert_mass_to_kg, P_MASS),
      (best_lifespan_yr, convert_time_to_years, P_LIFESPAN),
      (best_gestation_days, convert_time_to_days, P_GESTATION),
      (best_speed_mph, convert_speed_to_mph, P_SPEED),
      (best_litter_size, unitless, P_LITTER)}" by simp
  have ex: "\<exists>(v, u) \<in> set ?qs. convert_mass_to_kg v u \<noteq> None"
    by (simp add: conv del: dec_div.simps)
  note t = trait_aggregation [OF mem mass_entity_quantities [symmetric]]
  from t [THEN conjunct2, THEN conjunct1, THEN mp, OF ex]
  obtain c where cc: "best_mass_kg plain_numeral mass_entity = Some (float_of_decimal c)
    \<and> (\<exists>(v, u) \<in> set ?qs. convert_mass_to_kg v u = Some c)
    \<and> (\<forall>(v, u) \<in> set ?qs. \<forall>c'. convert_mass_to_kg v u = Some c' \<longrightarrow> dec_val c' \<le> dec_val c)" ..
  from cc have c: "best_mass_kg plain_numeral mass_entity = Some (float_of_decimal c)"
    and c1: "\<exists>(v, u) \<in> set ?qs. convert_mass_to_kg v u = Some c"
    and c2: "\<forall>(v, u) \<in> set ?qs. \<forall>c'. convert_mass_to_kg v u = Some c' \<longrightarrow> dec_val c' \<le> dec_val c"
    by (rule conjunct1, rule conjunct2 [THEN conjunct1], rule conjunct2 [THEN conjunct2])
  from c1 have "c = Dec 5 0 \<or> c = ?g" by (auto simp: conv simp del: dec_div.simps)
  moreover from c2 have "dec_val ?g \<le> dec_val c" by (simp add: conv del: dec_div.simps)
  ultimately have cg: "c = ?g" by (auto simp: eleven simp del: dec_div.simps)
  have a: "\<exists>c. best_mass_kg plain_numeral mass_entity = Some (float_of_decimal c) \<and> dec_val c = 11"
    using c cg eleven by blast
  have b: "map_option fval (best_mass_kg plain_numeral mass_entity) = Some 11"
    using c cg float_eleven by (simp del: dec_div.simps)
  have memn: "\<forall>(v, u) \<in> set []. convert_mass_to_kg v u = None" by simp
  have n: "best_mass_kg plain_numeral litter_entity = None"
    by (rule trait_aggregation [OF mem litter_entity_quantities(2) [symmetric],
          THEN conjunct1, THEN mp, OF memn])
  let ?ls = "[(Dec 4 0, None), (Dec 12 0, Some Q_KG)]"
  have meml: "(best_litter_size, unitless, P_LITTER) \<in>
     {(best_mass_kg, convert_mass_to_kg, P_MASS),
      (best_lifespan_yr, convert_time_to_years, P_LIFESPAN),
      (best_gestation_days, convert_time_to_days, P_GESTATION),
      (best_speed_mph, convert_speed_to_mph, P_SPEED),
      (best_litter_size, unitless, P_LITTER)}" by simp
  have exl: "\<exists>(v, u) \<in> set ?ls. unitless v u \<noteq> None" by (simp add: unitless_def)
  note tl = trait_aggregation [OF meml litter_entity_quantities(1) [symmetric]]
  from tl [THEN conjunct2, THEN conjunct1, THEN mp, OF exl]
  obtain d where dd: "best_litter_size plain_numeral litter_entity = Some (float_of_decimal d)
    \<and> (\<exists>(v, u) \<in> set ?ls. unitless v u = Some d)
    \<and> (\<forall>(v, u) \<in> set ?ls. \<forall>c'. unitless v u = Some c' \<longrightarrow> dec_val c' \<le> dec_val d)" ..
  from dd have d: "best_litter_size plain_numeral litter_entity = Some (float_of_decimal d)"
    and d1: "\<exists>(v, u) \<in> set ?ls. unitless v u = Some d"
    by (rule conjunct1, rule conjunct2 [THEN conjunct1])
  from d1 have "d = Dec 4 0" by (auto simp: unitless_def)
  with d have l: "best_litter_size plain_numeral litter_entity = Some (float_of_decimal (Dec 4 0))"
    by simp
  from a b n l show ?thesis by blast
qed

section \<open>Audio candidate selection\<close>



section \<open>Cross-source trait filling\<close>



section \<open>Image fallback\<close>

text \<open>
  C7.  With a map-like lead image, the code scans the other images of the page in order,
  passes over the lead file name and the map-like names, and takes the first whose
  Commons lookup gives a file page and a URL that is not map-like; when none does, the
  candidate has no image and both \<open>skipped_map_only\<close> and \<open>skipped_no_image\<close> are
  counted.  That holds as long as no lookup raises (\<open>image_try_block_map_like\<close>, and
  \<open>image_fallback_alternate\<close> for a page with a distribution map and a photograph).
  When the retrieval of the page's images (or the lookup of an alternate) raises, the
  handler \<open>except Exception: pass\<close> leaves the lead image selected, although it is
  map-like: the candidate below keeps its distribution map and no counter moves.
\<close>

theorem image_fallback_failure:
  "select_image (\<lambda>s. s) failing_net ''Lion'' \<lparr>skipped_no_image = 0, skipped_map_only = 0\<rparr>
     = (Some \<lparr>image_url =
                Some ''https://upload.wikimedia.org/wikipedia/commons/a/a1/Lion_distribution_map.png'',
              image_file_page =
                Some ''https://commons.wikimedia.org/wiki/File:Lion_distribution_map.png'',
              image_license = Some ''CC BY-SA 4.0'',
              image_attribution = Some ''A / CC BY-SA 4.0''\<rparr>,
        \<lparr>skipped_no_image = 0, skipped_map_only = 0\<rparr>)
   \<and> is_map_like_image_name_or_url (\<lambda>s. s) (Some ''Lion_distribution_map.png'')"
  by (simp add: map_tokens select_image_def image_try_block_def failing_net_def map_meta_def
      truthy_def or_empty_def)

section \<open>The sound column\<close>



end
